theory Spec2Isabelle
  imports Complex_Main
begin

unbundle bit_operations_syntax

section \<open>The document tree\<close>

text \<open>
  The engine of \<^verbatim>\<open>src/service/fixed-layer.js\<close> works on a live DOM. The document is
  modelled as a tree of numbered nodes rooted at \<^verbatim>\<open>documentElement\<close>. A node that is not
  in the tree is detached; the only detached nodes the engine ever re-inserts are its
  own placeholders, which it creates childless, so a detached node is a leaf.
\<close>

datatype node = Node (nid: nat) (kids: "node list")

fun ids :: "node \<Rightarrow> nat list" where
  "ids (Node n ks) = n # concat (map ids ks)"

text \<open>\<^verbatim>\<open>doc.contains(n)\<close>\<close>

definition contains :: "node \<Rightarrow> nat \<Rightarrow> bool" where
  "contains d n = (n \<in> set (ids d))"

fun subtreeAt :: "nat \<Rightarrow> node \<Rightarrow> node option"
  and subtreeIn :: "nat \<Rightarrow> node list \<Rightarrow> node option" where
  "subtreeAt n (Node m ks) = (if n = m then Some (Node m ks) else subtreeIn n ks)"
| "subtreeIn n [] = None"
| "subtreeIn n (k # ks) =
     (case subtreeAt n k of Some t \<Rightarrow> Some t | None \<Rightarrow> subtreeIn n ks)"

text \<open>
  \<^verbatim>\<open>n.parentElement\<close>: the parent inside the tree. The root's parent is the Document,
  which is not an element, so \<^verbatim>\<open>documentElement.parentElement\<close> is null, as is the
  parent of a detached node.
\<close>

fun parentElement :: "nat \<Rightarrow> node \<Rightarrow> nat option"
  and parentIn :: "nat \<Rightarrow> node list \<Rightarrow> nat option" where
  "parentElement n (Node m ks) = (if n \<in> set (map nid ks) then Some m else parentIn n ks)"
| "parentIn n [] = None"
| "parentIn n (k # ks) =
     (case parentElement n k of Some p \<Rightarrow> Some p | None \<Rightarrow> parentIn n ks)"

text \<open>Replace the child subtree numbered \<open>old\<close> by the subtree \<open>new\<close>, in place.\<close>

fun replaceSub :: "nat \<Rightarrow> node \<Rightarrow> node \<Rightarrow> node" where
  "replaceSub old new (Node m ks) =
     Node m (map (\<lambda>k. if nid k = old then new else replaceSub old new k) ks)"

text \<open>Remove the child subtree numbered \<open>old\<close>.\<close>

fun removeSub :: "nat \<Rightarrow> node \<Rightarrow> node" where
  "removeSub old (Node m ks) = Node m (map (removeSub old) (filter (\<lambda>k. nid k \<noteq> old) ks))"

text \<open>Append the subtree \<open>t\<close> as the last child of the node numbered \<open>p\<close>.\<close>

fun appendSub :: "nat \<Rightarrow> node \<Rightarrow> node \<Rightarrow> node" where
  "appendSub p t (Node m ks) =
     (if m = p then Node m (ks @ [t]) else Node m (map (appendSub p t) ks))"

text \<open>
  A node taken out of wherever it is now: its subtree and the tree without it. A node
  outside the tree is a leaf.
\<close>

definition takeNode :: "nat \<Rightarrow> node \<Rightarrow> node \<times> node" where
  "takeNode n d =
     (case subtreeAt n d of Some t \<Rightarrow> (t, removeSub n d) | None \<Rightarrow> (Node n [], d))"

datatype error = TypeError | SyntaxError | HierarchyRequestError | SecurityError

text \<open>
  \<^verbatim>\<open>par.replaceChild(new, old)\<close> of the DOM standard, for \<open>old\<close> a child of \<open>par\<close>: a
  node that is an inclusive ancestor of \<open>par\<close> cannot be inserted below it; otherwise
  \<open>new\<close> is first taken out of its present place, then put where \<open>old\<close> is. The result
  is the new tree and the subtree of \<open>old\<close>, now detached. Replacing a node by itself
  leaves it where it is.
\<close>

definition replaceChild :: "nat \<Rightarrow> nat \<Rightarrow> nat \<Rightarrow> node \<Rightarrow> error + node \<times> node" where
  "replaceChild par new old d =
     (if new = old then Inr (d, fst (takeNode old d))
      else
        let (t, d') = takeNode new d
        in if par \<in> set (ids t) then Inl HierarchyRequestError
           else Inr (replaceSub old t d', fst (takeNode old d')))"

text \<open>
  \<^verbatim>\<open>l.appendChild(n)\<close> of the DOM standard, for \<open>sub\<close> the subtree of \<open>n\<close>: a node
  cannot take one of its inclusive ancestors as a child; otherwise \<open>n\<close> is first taken
  out of its present place, then appended.
\<close>

definition appendChild :: "nat \<Rightarrow> node \<Rightarrow> node \<Rightarrow> error + node" where
  "appendChild l sub d =
     (if l \<in> set (ids sub) then Inl HierarchyRequestError
      else Inr (appendSub l sub (removeSub (nid sub) d)))"

text \<open>
  \<^verbatim>\<open>a.compareDocumentPosition(b)\<close> of the DOM standard, as a bit mask:
  1 disconnected, 2 preceding, 4 following, 8 contains, 16 contained by,
  32 implementation specific.
\<close>

fun comesBefore :: "nat \<Rightarrow> nat \<Rightarrow> nat list \<Rightarrow> bool" where
  "comesBefore b a [] = False"
| "comesBefore b a (x # xs) =
     (if x = b then True else if x = a then False else comesBefore b a xs)"

definition isAncestor :: "node \<Rightarrow> nat \<Rightarrow> nat \<Rightarrow> bool" where
  "isAncestor d b a =
     (a \<noteq> b \<and> (case subtreeAt b d of Some t \<Rightarrow> a \<in> set (ids t) | None \<Rightarrow> False))"

definition compareDocumentPosition :: "node \<Rightarrow> nat \<Rightarrow> nat \<Rightarrow> int" where
  "compareDocumentPosition d a b =
     (if a = b then 0
      else if \<not> contains d a \<or> \<not> contains d b then (if b < a then 35 else 37)
      else if isAncestor d b a then 10
      else if isAncestor d a b then 20
      else if comesBefore b a (ids d) then 2
      else 4)"

section \<open>Strings and numbers\<close>

text \<open>The decimal rendering of a number inside a template string.\<close>

fun showNat :: "nat \<Rightarrow> string" where
  "showNat n =
     (if n < 10 then [''0123456789'' ! n]
      else showNat (n div 10) @ [''0123456789'' ! (n mod 10)])"

declare showNat.simps [simp del]

definition showInt :: "int \<Rightarrow> string" where
  "showInt i = (if i < 0 then CHR ''-'' # showNat (nat (- i)) else showNat (nat i))"

definition isDigit :: "char \<Rightarrow> bool" where
  "isDigit c = (48 \<le> (of_char c :: nat) \<and> (of_char c :: nat) \<le> 57)"

text \<open>
  The white space and line terminators that \<^verbatim>\<open>parseInt\<close> skips, as far as a character of
  one byte can be one: tab, line feed, vertical tab, form feed, carriage return, space
  and no-break space.
\<close>

definition isSpace :: "char \<Rightarrow> bool" where
  "isSpace c = ((of_char c :: nat) \<in> {9, 10, 11, 12, 13, 32, 160})"

fun digitsValue :: "int \<Rightarrow> string \<Rightarrow> int" where
  "digitsValue acc [] = acc"
| "digitsValue acc (c # cs) = digitsValue (acc * 10 + (int (of_char c) - 48)) cs"

text \<open>
  \<^verbatim>\<open>parseInt(s, 10)\<close> of ECMAScript: leading white space is skipped, one sign is read,
  then the longest run of decimal digits; the rest of the string is ignored. With no
  digit the result is NaN, here \<open>None\<close>. Minus zero compares equal to zero and is
  \<open>Some 0\<close>.
\<close>

definition parseInt :: "string \<Rightarrow> int option" where
  "parseInt s =
     (let t = dropWhile isSpace s;
          neg = (t \<noteq> [] \<and> hd t = CHR ''-'');
          u = (if t \<noteq> [] \<and> (hd t = CHR ''-'' \<or> hd t = CHR ''+'') then tl t else t);
          z = takeWhile isDigit u
      in if z = [] then None
         else Some ((if neg then - 1 else 1) * digitsValue 0 z))"

section \<open>Data of the engine\<close>

text \<open>\<^verbatim>\<open>FixedElementDef\<close>. A field never assigned reads \<^verbatim>\<open>undefined\<close>, here \<open>None\<close>.\<close>

record fixedElementDef =
  fe_id :: string
  element :: nat
  selectors :: "string list"
  placeholder :: "nat option"
  fixedNow :: "bool option"

text \<open>\<^verbatim>\<open>FixedElementStateDef\<close>, one per element and cycle.\<close>

record fixedElementStateDef =
  fixed :: bool
  transferrable :: bool
  st_top :: string
  st_zIndex :: string

text \<open>
  What the measure phase reads of one element: the computed style, the value of
  \<^verbatim>\<open>parseFloat\<close> on the computed opacity (\<open>None\<close> is NaN) and the rendered box.
\<close>

record computedStyle =
  cs_position :: string
  cs_top :: string
  cs_bottom :: string
  cs_opacity :: "real option"
  cs_visibility :: string
  cs_zIndex :: string
  offsetWidth :: int
  offsetHeight :: int

text \<open>
  The host: the style engine, the selector engine (\<^verbatim>\<open>element.matches\<close> or one of its
  prefixed forms, absent on some hosts, and \<^verbatim>\<open>querySelectorAll\<close>, both of which may
  throw) and \<^verbatim>\<open>Array.prototype.sort\<close>.
\<close>

record host =
  getComputedStyle :: "nat \<Rightarrow> computedStyle"
  matcher :: "nat \<Rightarrow> (node \<Rightarrow> string \<Rightarrow> error + bool) option"
  querySelectorAll :: "node \<Rightarrow> string \<Rightarrow> error + nat list"
  arraySort :: "(fixedElementDef \<Rightarrow> fixedElementDef \<Rightarrow> int)
                 \<Rightarrow> fixedElementDef list \<Rightarrow> fixedElementDef list"

text \<open>
  The fields of \<^verbatim>\<open>FixedLayer\<close> together with the part of the page it reads and writes.
  \<open>styleWrites\<close> counts the writes to inline styles; \<open>reported\<close> is the queue of errors
  rethrown from a \<^verbatim>\<open>setTimeout\<close> callback, outside the call that caught them.
\<close>

record fixedLayerState =
  document :: node
  body :: nat
  inlineStyle :: "nat \<Rightarrow> string \<Rightarrow> string"
  attribute :: "nat \<Rightarrow> string \<Rightarrow> string option"
  className :: "nat \<Rightarrow> string"
  nextNode :: nat
  paddingTop :: int
  transfer :: bool
  fixedLayer :: "nat option"
  counter :: nat
  fixedElements :: "fixedElementDef list"
  styleWrites :: nat
  reported :: "error list"

text \<open>A call either returns or throws; what it did to the page before throwing stays done.\<close>

datatype result = Ok fixedLayerState | Throw error fixedLayerState

definition setStyle :: "nat \<Rightarrow> string \<Rightarrow> string \<Rightarrow> fixedLayerState \<Rightarrow> fixedLayerState" where
  "setStyle el prop v s =
     s\<lparr>inlineStyle := (inlineStyle s)(el := (inlineStyle s el)(prop := v)),
       styleWrites := styleWrites s + 1\<rparr>"

definition setStyles :: "nat \<Rightarrow> (string \<times> string) list \<Rightarrow> fixedLayerState \<Rightarrow> fixedLayerState" where
  "setStyles el kvs s = foldl (\<lambda>s' (k, v). setStyle el k v s') s kvs"

definition setAttribute :: "nat \<Rightarrow> string \<Rightarrow> string \<Rightarrow> fixedLayerState \<Rightarrow> fixedLayerState" where
  "setAttribute el k v s = s\<lparr>attribute := (attribute s)(el := (attribute s el)(k \<mapsto> v))\<rparr>"

text \<open>\<^verbatim>\<open>doc.createElement\<close>: a new, detached node.\<close>

definition createElement :: "fixedLayerState \<Rightarrow> nat \<times> fixedLayerState" where
  "createElement s = (nextNode s, s\<lparr>nextNode := nextNode s + 1\<rparr>)"

definition setFe :: "nat \<Rightarrow> fixedElementDef \<Rightarrow> fixedLayerState \<Rightarrow> fixedLayerState" where
  "setFe i fe s = s\<lparr>fixedElements := (fixedElements s)[i := fe]\<rparr>"

definition report :: "error \<Rightarrow> fixedLayerState \<Rightarrow> fixedLayerState" where
  "report e s = s\<lparr>reported := reported s @ [e]\<rparr>"

section \<open>The registry\<close>

text \<open>
  \<^verbatim>\<open>setupFixedElement_\<close>: the first entry of the element, if any, gets the selector
  pushed; otherwise a new entry is appended under the next id.
\<close>

fun pushSelector :: "nat \<Rightarrow> string \<Rightarrow> fixedElementDef list \<Rightarrow> fixedElementDef list option" where
  "pushSelector e sel [] = None"
| "pushSelector e sel (f # fs) =
     (if element f = e then Some (f\<lparr>selectors := selectors f @ [sel]\<rparr> # fs)
      else map_option ((#) f) (pushSelector e sel fs))"

definition setupFixedElement :: "nat \<Rightarrow> string \<Rightarrow> fixedLayerState \<Rightarrow> fixedLayerState" where
  "setupFixedElement e sel s =
     (case pushSelector e sel (fixedElements s) of
        Some fes \<Rightarrow> s\<lparr>fixedElements := fes\<rparr>
      | None \<Rightarrow>
          let fixedId = ''F'' @ showNat (counter s);
              s1 = setAttribute e ''i-amp-fixedid'' fixedId (s\<lparr>counter := counter s + 1\<rparr>)
          in s1\<lparr>fixedElements := fixedElements s1 @
                 [\<lparr>fe_id = fixedId, element = e, selectors = [sel],
                   placeholder = None, fixedNow = None\<rparr>]\<rparr>)"

text \<open>\<^verbatim>\<open>removeFixedElement_\<close>: the first entry of the element is spliced out.\<close>

fun spliceElement :: "nat \<Rightarrow> fixedElementDef list \<Rightarrow> fixedElementDef list" where
  "spliceElement e [] = []"
| "spliceElement e (f # fs) = (if element f = e then fs else f # spliceElement e fs)"

definition removeFixedElement :: "nat \<Rightarrow> fixedLayerState \<Rightarrow> fixedLayerState" where
  "removeFixedElement e s = s\<lparr>fixedElements := spliceElement e (fixedElements s)\<rparr>"

text \<open>
  The comparator of \<^verbatim>\<open>sortInDomOrder_\<close>. The source writes
  \<^verbatim>\<open>fe1.element.compareDocumentPosition(fe2.element) & 0x0A != 0\<close>; in JavaScript
  \<^verbatim>\<open>!=\<close> binds tighter than \<^verbatim>\<open>&\<close>, so the mask is the boolean \<^verbatim>\<open>0x0A != 0\<close>
  converted to a number.
\<close>

definition domOrderComparator :: "node \<Rightarrow> fixedElementDef \<Rightarrow> fixedElementDef \<Rightarrow> int" where
  "domOrderComparator d fe1 fe2 =
     (if (compareDocumentPosition d (element fe1) (element fe2)
            AND (if (10::int) \<noteq> 0 then 1 else 0)) \<noteq> 0
      then 1 else - 1)"

definition sortInDomOrder :: "host \<Rightarrow> fixedLayerState \<Rightarrow> fixedLayerState" where
  "sortInDomOrder env s =
     s\<lparr>fixedElements := arraySort env (domOrderComparator (document s)) (fixedElements s)\<rparr>"

section \<open>The measure phase\<close>

definition isAllowedCoord :: "string \<Rightarrow> bool" where
  "isAllowedCoord s = (s \<noteq> [] \<and> parseInt s = Some 0)"

definition measureElement :: "host \<Rightarrow> fixedElementDef \<Rightarrow> fixedElementStateDef" where
  "measureElement env fe =
     (let styles = getComputedStyle env (element fe);
          isFixed = (cs_position styles = ''fixed'' \<and> offsetWidth styles > 0
                     \<and> offsetHeight styles > 0);
          isTransferrable =
            (isFixed \<and> cs_visibility styles \<noteq> ''hidden''
             \<and> (case cs_opacity styles of None \<Rightarrow> False | Some op \<Rightarrow> op > 0)
             \<and> offsetHeight styles < 300
             \<and> (isAllowedCoord (cs_top styles) \<or> isAllowedCoord (cs_bottom styles)))
      in \<lparr>fixed = isFixed, transferrable = isTransferrable,
          st_top = cs_top styles, st_zIndex = cs_zIndex styles\<rparr>)"

text \<open>
  The \<^verbatim>\<open>measure\<close> callback: \<^verbatim>\<open>state[fe.id]\<close> for each entry in turn, and the
  flag \<^verbatim>\<open>hasTransferables\<close>.
\<close>

definition measureStep ::
  "host \<Rightarrow> (string \<rightharpoonup> fixedElementStateDef) \<times> bool \<Rightarrow> fixedElementDef
   \<Rightarrow> (string \<rightharpoonup> fixedElementStateDef) \<times> bool" where
  "measureStep env acc fe =
     (let m = measureElement env fe
      in ((fst acc)(fe_id fe \<mapsto> m), snd acc \<or> transferrable m))"

definition measurePhase ::
  "host \<Rightarrow> fixedElementDef list \<Rightarrow> (string \<rightharpoonup> fixedElementStateDef) \<times> bool" where
  "measurePhase env fes = foldl (measureStep env) (Map.empty, False) fes"

section \<open>The overlay layer\<close>

definition fixedLayerStyles :: "(string \<times> string) list" where
  "fixedLayerStyles =
     [(''position'', ''absolute''), (''top'', ''0''), (''left'', ''0''), (''height'', ''0''),
      (''width'', ''0''), (''pointerEvents'', ''none''), (''overflow'', ''hidden''),
      (''animation'', ''none''), (''background'', ''none''), (''border'', ''none''),
      (''borderImage'', ''none''), (''boxSizing'', ''border-box''), (''boxShadow'', ''none''),
      (''display'', ''block''), (''float'', ''none''), (''margin'', ''0''), (''opacity'', ''1''),
      (''outline'', ''none''), (''padding'', ''none''), (''transform'', ''none''),
      (''transition'', ''none''), (''visibility'', ''visible'')]"

definition getFixedLayer :: "fixedLayerState \<Rightarrow> nat option \<times> fixedLayerState" where
  "getFixedLayer s =
     (if \<not> transfer s \<or> fixedLayer s \<noteq> None then (fixedLayer s, s)
      else
        let (l, s1) = createElement s;
            s2 = s1\<lparr>fixedLayer := Some l\<rparr>;
            s3 = setAttribute l ''id'' ''-amp-fixedlayer'' s2;
            s4 = setStyles l fixedLayerStyles s3;
            s5 = s4\<lparr>document := appendSub (nid (document s4)) (Node l []) (document s4)\<rparr>
        in (Some l, s5))"

section \<open>Transfer and return\<close>

text \<open>
  \<^verbatim>\<open>returnFromFixedLayer_(fe)\<close> reads \<^verbatim>\<open>fe.placeholder\<close> and \<^verbatim>\<open>fe.element\<close>.
\<close>

definition returnFromFixedLayer :: "fixedElementDef \<Rightarrow> fixedLayerState \<Rightarrow> result" where
  "returnFromFixedLayer fe s =
     (case placeholder fe of
        None \<Rightarrow> Ok s
      | Some p \<Rightarrow>
          if \<not> contains (document s) p then Ok s
          else if contains (document s) (element fe) then
            let s1 = (if inlineStyle s (element fe) ''zIndex'' \<noteq> ''''
                      then setStyle (element fe) ''zIndex'' '''' s else s)
            in (case parentElement p (document s1) of
                  None \<Rightarrow> Throw TypeError s1
                | Some par \<Rightarrow>
                    (case replaceChild par (element fe) p (document s1) of
                       Inl e \<Rightarrow> Throw e s1
                     | Inr (d, old) \<Rightarrow> Ok (s1\<lparr>document := d\<rparr>)))
          else
            (case parentElement p (document s) of
               None \<Rightarrow> Throw TypeError s
             | Some par \<Rightarrow> Ok (s\<lparr>document := removeSub p (document s)\<rparr>)))"

text \<open>
  \<^verbatim>\<open>matches_\<close>: the host matcher, if there is one; an exception of the matcher is caught
  and rethrown from a timer, and the answer is then \<^verbatim>\<open>false\<close>.
\<close>

definition matches :: "host \<Rightarrow> nat \<Rightarrow> string \<Rightarrow> fixedLayerState \<Rightarrow> bool \<times> fixedLayerState" where
  "matches env el sel s =
     (case matcher env el of
        None \<Rightarrow> (False, s)
      | Some m \<Rightarrow>
          (case m (document s) sel of
             Inr b \<Rightarrow> (b, s)
           | Inl e \<Rightarrow> (False, report e s)))"

text \<open>\<^verbatim>\<open>fe.selectors.some(selector => this.matches_(element, selector))\<close>\<close>

fun someMatches :: "host \<Rightarrow> nat \<Rightarrow> string list \<Rightarrow> fixedLayerState \<Rightarrow> bool \<times> fixedLayerState" where
  "someMatches env el [] s = (False, s)"
| "someMatches env el (sel # sels) s =
     (let (b, s') = matches env el sel s
      in if b then (True, s') else someMatches env el sels s')"

text \<open>The z-index written at transfer: \<^verbatim>\<open>calc(${10000 + index} + ${state.zIndex || 0})\<close>.\<close>

definition transferZIndex :: "nat \<Rightarrow> string \<Rightarrow> string" where
  "transferZIndex index z =
     ''calc('' @ showNat (10000 + index) @ '' + '' @ (if z \<noteq> '''' then z else ''0'') @ '')''"

text \<open>The placeholder of the entry, created and configured on the first transfer.\<close>

definition ensurePlaceholder :: "nat \<Rightarrow> fixedLayerState \<Rightarrow> nat \<times> fixedLayerState" where
  "ensurePlaceholder index s =
     (let fe = fixedElements s ! index
      in case placeholder fe of
           Some p \<Rightarrow> (p, s)
         | None \<Rightarrow>
             let s1 = setStyle (element fe) ''pointer-events'' ''initial'' s;
                 (p, s2) = createElement s1;
                 s3 = setFe index (fe\<lparr>placeholder := Some p\<rparr>) s2;
                 s4 = setAttribute p ''i-amp-fixedid'' (fe_id fe) s3;
                 s5 = setStyle p ''display'' ''none'' s4
             in (p, s5))"

text \<open>
  \<^verbatim>\<open>this.getFixedLayer_().appendChild(element)\<close>, for \<open>sub\<close> the subtree of the
  element: the layer is created now if this is its first use.
\<close>

definition appendToLayer :: "node \<Rightarrow> fixedLayerState \<Rightarrow> result" where
  "appendToLayer sub s =
     (let (layer, s1) = getFixedLayer s
      in case layer of
           None \<Rightarrow> Throw TypeError s1
         | Some l \<Rightarrow>
             (case appendChild l sub (document s1) of
                Inl e \<Rightarrow> Throw e s1
              | Inr d \<Rightarrow> Ok (s1\<lparr>document := d\<rparr>)))"

definition rematch :: "host \<Rightarrow> nat \<Rightarrow> fixedLayerState \<Rightarrow> result" where
  "rematch env index s =
     (let fe = fixedElements s ! index;
          (m, s1) = someMatches env (element fe) (selectors fe) s
      in if \<not> m then returnFromFixedLayer fe s1 else Ok s1)"

definition transferToFixedLayer ::
  "host \<Rightarrow> nat \<Rightarrow> fixedElementStateDef \<Rightarrow> fixedLayerState \<Rightarrow> result" where
  "transferToFixedLayer env index state s =
     (let el = element (fixedElements s ! index)
      in if parentElement el (document s) = fixedLayer s then Ok s
         else
           let (p, s1) = ensurePlaceholder index s;
               s2 = setStyle el ''zIndex'' (transferZIndex index (st_zIndex state)) s1
           in case parentElement el (document s2) of
                None \<Rightarrow> Throw TypeError s2
              | Some par \<Rightarrow>
                  (case replaceChild par p el (document s2) of
                     Inl e \<Rightarrow> Throw e s2
                   | Inr (d, sub) \<Rightarrow>
                       (case appendToLayer sub (s2\<lparr>document := d\<rparr>) of
                          Throw e s3 \<Rightarrow> Throw e s3
                        | Ok s3 \<Rightarrow> rematch env index s3)))"

section \<open>The mutate phase\<close>

text \<open>The top written for a fixed element: \<^verbatim>\<open>calc(${state.top} + ${this.paddingTop_}px)\<close>.\<close>

definition paddedTop :: "string \<Rightarrow> int \<Rightarrow> string" where
  "paddedTop t px = ''calc('' @ t @ '' + '' @ showInt px @ ''px)''"

text \<open>
  \<^verbatim>\<open>mutateFixedElement_\<close>. The test \<^verbatim>\<open>oldFixed == state.fixed\<close> fails for an entry
  whose \<^verbatim>\<open>fixedNow\<close> was never assigned, whatever the measured flag.
\<close>

definition mutateFixedElement ::
  "host \<Rightarrow> nat \<Rightarrow> fixedElementStateDef \<Rightarrow> fixedLayerState \<Rightarrow> result" where
  "mutateFixedElement env index state s =
     (let fe = fixedElements s ! index;
          el = element fe
      in if fixedNow fe = Some (fixed state) then Ok s
         else
           let s1 = setFe index (fe\<lparr>fixedNow := Some (fixed state)\<rparr>) s
           in if fixed state then
                let s2 = (if st_top state \<noteq> ''''
                          then setStyle el ''top'' (paddedTop (st_top state) (paddingTop s1)) s1
                          else s1)
                in if transfer s2 then
                     (if transferrable state then transferToFixedLayer env index state s2
                      else returnFromFixedLayer (fixedElements s2 ! index) s2)
                   else Ok s2
              else
                let s2 = (if inlineStyle s1 el ''top'' \<noteq> ''''
                          then setStyle el ''top'' '''' s1 else s1)
                in returnFromFixedLayer (fixedElements s2 ! index) s2)"

text \<open>The head of the \<^verbatim>\<open>mutate\<close> callback: the layer takes the class of the body.\<close>

definition syncLayerClass :: "fixedLayerState \<Rightarrow> result" where
  "syncLayerClass s =
     (let (layer, s1) = getFixedLayer s
      in case layer of
           None \<Rightarrow> Throw TypeError s1
         | Some l \<Rightarrow>
             if className s1 l \<noteq> className s1 (body s1)
             then Ok (s1\<lparr>className := (className s1)(l := className s1 (body s1))\<rparr>)
             else Ok s1)"

text \<open>
  \<^verbatim>\<open>this.fixedElements_.forEach((fe, i) => ...)\<close> over the indices of the registry; an
  exception leaves the loop.
\<close>

fun mutateEach ::
  "host \<Rightarrow> (string \<rightharpoonup> fixedElementStateDef) \<Rightarrow> nat list \<Rightarrow> fixedLayerState \<Rightarrow> result" where
  "mutateEach env st [] s = Ok s"
| "mutateEach env st (i # is) s =
     (case st (fe_id (fixedElements s ! i)) of
        None \<Rightarrow> mutateEach env st is s
      | Some feState \<Rightarrow>
          (case mutateFixedElement env i feState s of
             Ok s' \<Rightarrow> mutateEach env st is s'
           | Throw e s' \<Rightarrow> Throw e s'))"

definition mutatePhase ::
  "host \<Rightarrow> (string \<rightharpoonup> fixedElementStateDef) \<Rightarrow> bool \<Rightarrow> fixedLayerState \<Rightarrow> result" where
  "mutatePhase env st hasTransferables s =
     (case (if hasTransferables \<and> transfer s then syncLayerClass s else Ok s) of
        Throw e s1 \<Rightarrow> Throw e s1
      | Ok s1 \<Rightarrow> mutateEach env st [0..<length (fixedElements s1)] s1)"

section \<open>The cycle and the entry points\<close>

text \<open>The head of \<^verbatim>\<open>update\<close>: entries whose element has left the document are removed.\<close>

definition pruneDetached :: "fixedLayerState \<Rightarrow> fixedLayerState" where
  "pruneDetached s =
     foldl (\<lambda>s' fe. removeFixedElement (element fe) s') s
       (filter (\<lambda>fe. \<not> contains (document s) (element fe)) (fixedElements s))"

text \<open>
  \<^verbatim>\<open>vsync.runPromise({measure, mutate})\<close>: the scheduler runs the measure callback and
  then the mutate callback; the model runs them at once.
\<close>

definition runCycle :: "host \<Rightarrow> fixedLayerState \<Rightarrow> result" where
  "runCycle env s =
     (let (st, hasTransferables) = measurePhase env (fixedElements s)
      in mutatePhase env st hasTransferables s)"

text \<open>
  \<^verbatim>\<open>update\<close>. A failure of the cycle is caught by the \<^verbatim>\<open>catch\<close> of the promise and
  rethrown from a timer.
\<close>

definition update :: "host \<Rightarrow> fixedLayerState \<Rightarrow> fixedLayerState" where
  "update env s =
     (if fixedElements s = [] then s
      else
        case runCycle env (pruneDetached s) of
          Ok s2 \<Rightarrow> s2
        | Throw e s2 \<Rightarrow> report e s2)"

definition updatePaddingTop :: "host \<Rightarrow> int \<Rightarrow> fixedLayerState \<Rightarrow> fixedLayerState" where
  "updatePaddingTop env px s = update env (s\<lparr>paddingTop := px\<rparr>)"

definition addElement :: "host \<Rightarrow> nat \<Rightarrow> fixedLayerState \<Rightarrow> fixedLayerState" where
  "addElement env e s = update env (sortInDomOrder env (setupFixedElement e ''*'' s))"

text \<open>
  \<^verbatim>\<open>removeElement\<close> hands the element itself to \<^verbatim>\<open>returnFromFixedLayer_\<close>, which reads
  it as a \<^verbatim>\<open>FixedElementDef\<close>. An element object has no \<^verbatim>\<open>placeholder\<close> property, so
  the property reads \<^verbatim>\<open>undefined\<close>; the other fields are not read then.
\<close>

definition elementAsDef :: "nat \<Rightarrow> fixedElementDef" where
  "elementAsDef e =
     \<lparr>fe_id = '''', element = e, selectors = [], placeholder = None, fixedNow = None\<rparr>"

definition removeElement :: "nat \<Rightarrow> fixedLayerState \<Rightarrow> result" where
  "removeElement e s =
     (let s1 = removeFixedElement e s
      in if fixedLayer s1 \<noteq> None then returnFromFixedLayer (elementAsDef e) s1 else Ok s1)"

definition setVisible :: "bool \<Rightarrow> fixedLayerState \<Rightarrow> fixedLayerState" where
  "setVisible visible s =
     (case fixedLayer s of
        None \<Rightarrow> s
      | Some l \<Rightarrow> setStyle l ''visibility'' (if visible then ''visible'' else ''hidden'') s)"

section \<open>Discovery and setup\<close>

text \<open>
  A CSS rule: a style rule (type 1) with its selector text and declared position, a
  media rule (type 4), a supports rule (type 12), or a rule of another type.
\<close>

datatype cssRule =
  StyleRule string string
| MediaRule "cssRule list"
| SupportsRule "cssRule list"
| OtherRule nat

fun discoverFixedSelectors :: "cssRule list \<Rightarrow> string list \<Rightarrow> string list"
  and discoverRule :: "cssRule \<Rightarrow> string list \<Rightarrow> string list" where
  "discoverFixedSelectors [] found = found"
| "discoverFixedSelectors (r # rs) found = discoverFixedSelectors rs (discoverRule r found)"
| "discoverRule (StyleRule selectorText pos) found =
     (if selectorText \<noteq> ''*'' \<and> pos = ''fixed'' then found @ [selectorText] else found)"
| "discoverRule (MediaRule rs) found = discoverFixedSelectors rs found"
| "discoverRule (SupportsRule rs) found = discoverFixedSelectors rs found"
| "discoverRule (OtherRule t) found = found"

text \<open>
  A style sheet: its owner node, if any, with tag name and attribute names, and its
  rules. Reading \<^verbatim>\<open>cssRules\<close> may throw.
\<close>

record ownerNode =
  tagName :: string
  attributeNames :: "string list"

record styleSheet =
  disabled :: bool
  owner :: "ownerNode option"
  cssRules :: "error + cssRule list"

definition skipped :: "styleSheet \<Rightarrow> bool" where
  "skipped sh =
     (disabled sh \<or>
      (case owner sh of
         None \<Rightarrow> True
       | Some n \<Rightarrow>
           tagName n \<noteq> ''STYLE''
           \<or> ''amp-boilerplate'' \<in> set (attributeNames n)
           \<or> ''amp-runtime'' \<in> set (attributeNames n)
           \<or> ''amp-extension'' \<in> set (attributeNames n)))"

fun discoverSheets :: "styleSheet list \<Rightarrow> string list \<Rightarrow> error + string list" where
  "discoverSheets [] found = Inr found"
| "discoverSheets (sh # shs) found =
     (if skipped sh then discoverSheets shs found
      else
        case cssRules sh of
          Inl e \<Rightarrow> Inl e
        | Inr rules \<Rightarrow> discoverSheets shs (discoverFixedSelectors rules found))"

text \<open>The inner loop of \<^verbatim>\<open>setup\<close> over the matches of one selector, from index \<open>i\<close>.\<close>

fun registerMatches :: "nat \<Rightarrow> nat list \<Rightarrow> string \<Rightarrow> fixedLayerState \<Rightarrow> fixedLayerState" where
  "registerMatches i [] sel s = s"
| "registerMatches i (e # es) sel s =
     (if i > 10 then s else registerMatches (i + 1) es sel (setupFixedElement e sel s))"

fun registerSelectors :: "host \<Rightarrow> string list \<Rightarrow> fixedLayerState \<Rightarrow> result" where
  "registerSelectors env [] s = Ok s"
| "registerSelectors env (sel # sels) s =
     (case querySelectorAll env (document s) sel of
        Inl e \<Rightarrow> Throw e s
      | Inr elements \<Rightarrow> registerSelectors env sels (registerMatches 0 elements sel s))"

text \<open>
  \<^verbatim>\<open>setup\<close>, given \<^verbatim>\<open>doc.styleSheets\<close>. Discovery runs outside the \<^verbatim>\<open>try\<close>; the
  registration loop runs inside it.
\<close>

definition setupLayer :: "host \<Rightarrow> styleSheet list option \<Rightarrow> fixedLayerState \<Rightarrow> result" where
  "setupLayer env stylesheets s =
     (case stylesheets of
        None \<Rightarrow> Ok s
      | Some shs \<Rightarrow>
          (case discoverSheets shs [] of
             Inl e \<Rightarrow> Throw e s
           | Inr fixedSelectors \<Rightarrow>
               let s1 = (case registerSelectors env fixedSelectors s of
                           Ok s' \<Rightarrow> s'
                         | Throw e s' \<Rightarrow> report e s')
               in Ok (update env (sortInDomOrder env s1))))"

section \<open>Notions used to state the properties\<close>

text \<open>The state a call leaves behind, whether it returned or threw.\<close>

fun stateOf :: "result \<Rightarrow> fixedLayerState" where
  "stateOf (Ok s) = s"
| "stateOf (Throw e s) = s"

text \<open>
  What a cycle leaves alone in the registry and the engine: the ids, elements and
  selectors of the entries, the configuration, and the layer once it exists.
\<close>

definition sameShape :: "fixedLayerState \<Rightarrow> fixedLayerState \<Rightarrow> bool" where
  "sameShape s s' =
     (map fe_id (fixedElements s') = map fe_id (fixedElements s)
      \<and> map element (fixedElements s') = map element (fixedElements s)
      \<and> map selectors (fixedElements s') = map selectors (fixedElements s)
      \<and> className s' = className s \<and> body s' = body s \<and> transfer s' = transfer s
      \<and> paddingTop s' = paddingTop s
      \<and> (fixedLayer s = None \<or> fixedLayer s' = fixedLayer s))"

text \<open>
  The number a style engine resolves the written z-index to: the sum of
  \<^verbatim>\<open>10000 + index\<close> and the declared z-index, when that is an integer.
\<close>

definition stackingValue :: "nat \<Rightarrow> string \<Rightarrow> int option" where
  "stackingValue index z =
     map_option (\<lambda>v. int (10000 + index) + v) (parseInt (if z \<noteq> '''' then z else ''0''))"

text \<open>
  One way a host may sort: the insertion sort that moves an element left past every
  neighbour the comparator puts after it.
\<close>

fun insertFromRight :: "('a \<Rightarrow> 'a \<Rightarrow> int) \<Rightarrow> 'a \<Rightarrow> 'a list \<Rightarrow> 'a list" where
  "insertFromRight c x [] = [x]"
| "insertFromRight c x (y # ys) =
     (if c y x > 0 then y # insertFromRight c x ys else x # y # ys)"

definition insertionSort :: "('a \<Rightarrow> 'a \<Rightarrow> int) \<Rightarrow> 'a list \<Rightarrow> 'a list" where
  "insertionSort c xs = rev (foldl (\<lambda>acc x. insertFromRight c x acc) [] xs)"

text \<open>The latches of the entries are the same in both states.\<close>

definition sameLatches :: "fixedLayerState \<Rightarrow> fixedLayerState \<Rightarrow> bool" where
  "sameLatches s s' = (map fixedNow (fixedElements s') = map fixedNow (fixedElements s))"

section \<open>Pages and hosts to run the engine on\<close>

text \<open>
  A small page: the root 0, the body 1 and two elements 2 and 3 of class \<^verbatim>\<open>bar\<close> below the
  body. Transfer is enabled and nothing is registered yet.
\<close>

definition demoPage :: fixedLayerState where
  "demoPage =
     \<lparr>document = Node 0 [Node 1 [Node 2 [], Node 3 []]], body = 1,
      inlineStyle = (\<lambda>n prop. ''''), attribute = (\<lambda>n. Map.empty), className = (\<lambda>n. ''''),
      nextNode = 4, paddingTop = 0, transfer = True, fixedLayer = None, counter = 0,
      fixedElements = [], styleWrites = 0, reported = []\<rparr>"

text \<open>A wider page: fifteen elements of class \<^verbatim>\<open>bar\<close>, numbered 2 to 16, below the body.\<close>

definition widePage :: fixedLayerState where
  "widePage =
     demoPage\<lparr>document := Node 0 [Node 1 (map (\<lambda>n. Node n []) [2..<17])], nextNode := 17\<rparr>"

text \<open>
  A visible element of 320 by 50 pixels with fixed position, the given computed top and
  the given z-index; and an element that is not fixed.
\<close>

definition fixedStyle :: "string \<Rightarrow> string \<Rightarrow> computedStyle" where
  "fixedStyle t z =
     \<lparr>cs_position = ''fixed'', cs_top = t, cs_bottom = ''auto'', cs_opacity = Some 1,
      cs_visibility = ''visible'', cs_zIndex = z, offsetWidth = 320, offsetHeight = 50\<rparr>"

definition staticStyle :: computedStyle where
  "staticStyle =
     \<lparr>cs_position = ''static'', cs_top = ''auto'', cs_bottom = ''auto'', cs_opacity = Some 1,
      cs_visibility = ''visible'', cs_zIndex = ''auto'', offsetWidth = 320, offsetHeight = 50\<rparr>"

text \<open>
  A host for a page whose elements of class \<^verbatim>\<open>bar\<close> are \<open>bars\<close>, with the given computed
  styles. Its selector engine answers \<^verbatim>\<open>html\<close> with the root and \<^verbatim>\<open>.bar\<close> with the
  elements of that class in document order; it rejects the namespaced selector
  \<^verbatim>\<open>svg|rect\<close> with a syntax error, both in \<^verbatim>\<open>querySelectorAll\<close> and in
  \<^verbatim>\<open>matches\<close>, and every element matches any other selector it is asked about. The
  host sorts by insertion.
\<close>

definition demoHost :: "nat list \<Rightarrow> (nat \<Rightarrow> computedStyle) \<Rightarrow> host" where
  "demoHost bars cs =
     \<lparr>getComputedStyle = cs,
      matcher = (\<lambda>n. Some (\<lambda>d sel. if sel = ''svg|rect'' then Inl SyntaxError else Inr True)),
      querySelectorAll =
        (\<lambda>d sel. if sel = ''html'' then Inr [nid d]
                  else if sel = ''.bar'' then Inr (filter (\<lambda>n. n \<in> set bars) (ids d))
                  else if sel = ''svg|rect'' then Inl SyntaxError
                  else Inr []),
      arraySort = insertionSort\<rparr>"

text \<open>
  A host on which an element matches the selector \<^verbatim>\<open>body > .bar\<close> exactly while it is a
  child of the body, node 1, and matches nothing else.
\<close>

definition childOfBodyHost :: "(nat \<Rightarrow> computedStyle) \<Rightarrow> host" where
  "childOfBodyHost cs =
     \<lparr>getComputedStyle = cs,
      matcher = (\<lambda>n. Some (\<lambda>d sel. Inr (sel = ''body > .bar'' \<and> parentElement n d = Some 1))),
      querySelectorAll =
        (\<lambda>d sel. if sel = ''body > .bar''
                  then Inr (filter (\<lambda>n. parentElement n d = Some 1 \<and> (n = 2 \<or> n = 3)) (ids d))
                  else Inr []),
      arraySort = insertionSort\<rparr>"

text \<open>Style sheets of an author: one \<^verbatim>\<open>style\<close> element with the given rules.\<close>

definition authorSheet :: "cssRule list \<Rightarrow> styleSheet" where
  "authorSheet rules =
     \<lparr>disabled = False, owner = Some \<lparr>tagName = ''STYLE'', attributeNames = []\<rparr>,
      cssRules = Inr rules\<rparr>"

definition rootAndBarSheets :: "styleSheet list" where
  "rootAndBarSheets = [authorSheet [StyleRule ''html'' ''fixed'', StyleRule ''.bar'' ''fixed'']]"

definition barSheets :: "styleSheet list" where
  "barSheets = [authorSheet [StyleRule ''.bar'' ''fixed'']]"

definition namespaceSheets :: "styleSheet list" where
  "namespaceSheets =
     [authorSheet [StyleRule ''svg|rect'' ''fixed'', StyleRule ''.bar'' ''fixed'']]"

text \<open>Hosts for the small page: which elements are fixed, with which top and z-index.\<close>

definition oneFixedHost :: host where
  "oneFixedHost = demoHost [2, 3] (\<lambda>n. if n = 2 then fixedStyle ''0px'' ''0'' else staticStyle)"

definition noneFixedHost :: host where
  "noneFixedHost = demoHost [2, 3] (\<lambda>n. staticStyle)"

definition rootFixedHost :: host where
  "rootFixedHost =
     demoHost [2, 3] (\<lambda>n. if n = 0 \<or> n = 2 then fixedStyle ''0px'' ''0'' else staticStyle)"

definition stackedHost :: host where
  "stackedHost =
     demoHost [2, 3] (\<lambda>n. if n = 2 then fixedStyle ''0px'' ''5''
                           else if n = 3 then fixedStyle ''0px'' ''0'' else staticStyle)"

definition halfPixelHost :: host where
  "halfPixelHost =
     demoHost [2, 3] (\<lambda>n. if n = 2 then fixedStyle ''0.5px'' ''0''
                           else if n = 3 then fixedStyle ''10px'' ''0'' else staticStyle)"

text \<open>A host for the wide page, on which nothing is fixed.\<close>

definition wideHost :: host where
  "wideHost = demoHost [2..<17] (\<lambda>n. staticStyle)"

text \<open>Two registry entries, for the elements 2 and 3, as discovery makes them.\<close>

definition twoEntries :: "fixedElementDef list" where
  "twoEntries =
     [\<lparr>fe_id = ''F0'', element = 2, selectors = [''.bar''], placeholder = None, fixedNow = None\<rparr>,
      \<lparr>fe_id = ''F1'', element = 3, selectors = [''.bar''], placeholder = None, fixedNow = None\<rparr>]"

text \<open>
  The small page once the layer, node 4, exists and the element 2 is registered under
  the selector \<^verbatim>\<open>body > .bar\<close>.
\<close>

definition layeredPage :: fixedLayerState where
  "layeredPage =
     demoPage\<lparr>document := Node 0 [Node 1 [Node 2 [], Node 3 []], Node 4 []],
              fixedLayer := Some 4, nextNode := 5, counter := 1,
              fixedElements :=
                [\<lparr>fe_id = ''F0'', element = 2, selectors = [''body > .bar''],
                  placeholder = None, fixedNow = None\<rparr>]\<rparr>"

text \<open>The small page after discovery registered the root and the two elements, before any cycle.\<close>

definition rootRegistered :: fixedLayerState where
  "rootRegistered =
     sortInDomOrder rootFixedHost
       (stateOf (registerSelectors rootFixedHost [''html'', ''.bar''] demoPage))"

text \<open>The small page after the element 2 was registered on its own, before any cycle.\<close>

definition barRegistered :: fixedLayerState where
  "barRegistered = sortInDomOrder oneFixedHost (setupFixedElement 2 ''*'' demoPage)"

text \<open>
  The small page after the element 2 was added and transferred, and after the page then
  took the element out of the document.
\<close>

definition elementGonePage :: fixedLayerState where
  "elementGonePage =
     (addElement oneFixedHost 2 demoPage)
       \<lparr>document := removeSub 2 (document (addElement oneFixedHost 2 demoPage))\<rparr>"

text \<open>
  The small page once the layer, node 4, exists and the element 2 is registered under
  the universal selector, as \<^verbatim>\<open>addElement\<close> registers it.
\<close>

definition addedPage :: fixedLayerState where
  "addedPage =
     layeredPage\<lparr>fixedElements :=
                   [\<lparr>fe_id = ''F0'', element = 2, selectors = [''*''],
                     placeholder = None, fixedNow = None\<rparr>]\<rparr>"

section \<open>Facts about the document tree\<close>

lemma nid_in_ids: "nid t \<in> set (ids t)"
  by (cases t) simp

lemma nid_neq: "n \<notin> set (ids k) \<Longrightarrow> nid k \<noteq> n"
  using nid_in_ids by blast

lemma distinct_child:
  "distinct (concat (map ids ks)) \<Longrightarrow> k \<in> set ks \<Longrightarrow> distinct (ids k)"
  by (induction ks) auto

lemma subtree_None:
  "(subtreeAt n d = None) = (n \<notin> set (ids d))"
  "(subtreeIn n ks = None) = (n \<notin> set (concat (map ids ks)))"
  by (induction n d and n ks rule: subtreeAt_subtreeIn.induct) (auto split: option.splits)

lemma subtree_Some:
  "subtreeAt n d = Some t \<Longrightarrow> nid t = n \<and> set (ids t) \<subseteq> set (ids d)"
  "subtreeIn n ks = Some t \<Longrightarrow> nid t = n \<and> set (ids t) \<subseteq> set (concat (map ids ks))"
  by (induction n d and n ks arbitrary: t and t rule: subtreeAt_subtreeIn.induct)
     (auto split: option.splits if_splits)

lemma removeSub_notin: "n \<notin> set (ids d) \<Longrightarrow> removeSub n d = d"
proof (induction d)
  case (Node m ks)
  have f: "filter (\<lambda>k. nid k \<noteq> n) ks = ks"
    using Node.prems by (auto simp: filter_id_conv dest: nid_neq)
  have "map (removeSub n) ks = ks"
    using Node by (auto simp: map_idI)
  with f show ?case by simp
qed

lemma replaceSub_notin: "n \<notin> set (ids d) \<Longrightarrow> replaceSub n t d = d"
proof (induction d)
  case (Node m ks)
  have "map (\<lambda>k. if nid k = n then t else replaceSub n t k) ks = ks"
    using Node by (intro map_idI) (auto dest: nid_neq)
  then show ?case by simp
qed

lemma appendSub_notin: "p \<notin> set (ids d) \<Longrightarrow> appendSub p t d = d"
proof (induction d)
  case (Node m ks)
  have "map (appendSub p t) ks = ks"
    using Node by (intro map_idI) auto
  with Node.prems show ?case by simp
qed

lemma nid_replaceSub [simp]: "nid (replaceSub a t d) = nid d"
  by (cases d) simp

lemma nid_removeSub [simp]: "nid (removeSub a d) = nid d"
  by (cases d) simp

lemma nid_appendSub [simp]: "nid (appendSub a t d) = nid d"
  by (cases d) simp

text \<open>In a tree with distinct ids, the subtree of a node below a child is found in that child.\<close>

lemma subtreeIn_child:
  "distinct (concat (map ids ks)) \<Longrightarrow> k \<in> set ks \<Longrightarrow> n \<in> set (ids k)
   \<Longrightarrow> subtreeIn n ks = subtreeAt n k"
proof (induction ks)
  case Nil
  then show ?case by simp
next
  case (Cons a ks)
  show ?case
  proof (cases "k = a")
    case True
    then show ?thesis using Cons.prems by (auto simp: subtree_None split: option.splits)
  next
    case False
    then have kin: "k \<in> set ks" using Cons.prems by simp
    have "n \<notin> set (ids a)" using Cons.prems kin by auto
    then have "subtreeAt n a = None" by (simp add: subtree_None)
    moreover have "subtreeIn n ks = subtreeAt n k"
      using Cons.IH Cons.prems kin by simp
    ultimately show ?thesis by simp
  qed
qed

lemma subtreeAt_self: "subtreeAt (nid k) k = Some k"
  by (cases k) simp

lemma replace_back:
  "distinct (ids d) \<Longrightarrow> p \<notin> set (ids d) \<Longrightarrow> (e \<in> set (ids d) \<longrightarrow> subtreeAt e d = Some E)
   \<Longrightarrow> replaceSub p E (replaceSub e (Node p []) d) = d"
proof (induction d)
  case (Node m ks)
  have dks: "distinct (concat (map ids ks))" and mnot: "m \<notin> set (concat (map ids ks))"
    using Node.prems(1) by auto
  have "map ((\<lambda>k. if nid k = p then E else replaceSub p E k)
             \<circ> (\<lambda>k. if nid k = e then Node p [] else replaceSub e (Node p []) k)) ks = ks"
  proof (intro map_idI)
    fix k assume kin: "k \<in> set ks"
    have kd: "distinct (ids k)" using dks kin by (rule distinct_child)
    have pk: "p \<notin> set (ids k)" using Node.prems(2) kin by auto
    show "((\<lambda>k. if nid k = p then E else replaceSub p E k)
             \<circ> (\<lambda>k. if nid k = e then Node p [] else replaceSub e (Node p []) k)) k = k"
    proof (cases "nid k = e")
      case True
      then have ek: "e \<in> set (ids k)" using nid_in_ids by auto
      then have "e \<in> set (ids (Node m ks))" using kin by auto
      then have "subtreeAt e (Node m ks) = Some E" using Node.prems(3) by blast
      moreover have "e \<noteq> m" using ek kin mnot by auto
      ultimately have "subtreeIn e ks = Some E" by simp
      then have "subtreeAt e k = Some E" using subtreeIn_child[OF dks kin ek] by simp
      then have "E = k" using True subtreeAt_self[of k] by simp
      then show ?thesis using True by simp
    next
      case False
      have "e \<in> set (ids k) \<longrightarrow> subtreeAt e k = Some E"
      proof
        assume ek: "e \<in> set (ids k)"
        then have "e \<in> set (ids (Node m ks))" using kin by auto
        then have "subtreeAt e (Node m ks) = Some E" using Node.prems(3) by blast
        moreover have "e \<noteq> m" using ek kin mnot by auto
        ultimately have "subtreeIn e ks = Some E" by simp
        then show "subtreeAt e k = Some E" using subtreeIn_child[OF dks kin ek] by simp
      qed
      then have "replaceSub p E (replaceSub e (Node p []) k) = k"
        using Node.IH[OF kin kd pk] by simp
      moreover have "nid k \<noteq> p" using pk nid_in_ids by auto
      ultimately show ?thesis using False by simp
    qed
  qed
  then show ?case by simp
qed

lemma remove_appended:
  "nid E \<notin> set (ids d) \<Longrightarrow> removeSub (nid E) (appendSub l E d) = d"
proof (induction d)
  case (Node m ks)
  have f: "filter (\<lambda>k. nid k \<noteq> nid E) ks = ks"
    using Node.prems by (auto simp: filter_id_conv dest: nid_neq)
  show ?case
  proof (cases "m = l")
    case True
    have "map (removeSub (nid E)) ks = ks"
      using Node.prems by (intro map_idI) (auto simp: removeSub_notin)
    then show ?thesis using True f by simp
  next
    case False
    have "filter (\<lambda>k. nid k \<noteq> nid E) (map (appendSub l E) ks) = map (appendSub l E) ks"
      using Node.prems by (auto simp: filter_id_conv dest: nid_neq)
    moreover have "map (removeSub (nid E)) (map (appendSub l E) ks) = ks"
      using Node by (auto simp: map_idI)
    ultimately show ?thesis using False by simp
  qed
qed

lemma parent_in:
  "parentElement n d = Some q \<Longrightarrow> q \<in> set (ids d) \<and> n \<in> set (concat (map ids (kids d)))"
  "parentIn n ks = Some q \<Longrightarrow> q \<in> set (concat (map ids ks)) \<and> n \<in> set (concat (map ids ks))"
proof (induction n d and n ks arbitrary: q and q rule: parentElement_parentIn.induct)
  case (1 n m ks)
  show ?case
  proof (cases "n \<in> set (map nid ks)")
    case True
    then obtain k where "k \<in> set ks" "nid k = n" by auto
    then have "n \<in> set (concat (map ids ks))" using nid_in_ids[of k] by auto
    then show ?thesis using True "1.prems" by simp
  next
    case False
    then show ?thesis using 1 by auto
  qed
next
  case (2 n)
  then show ?case by simp
next
  case (3 n k ks)
  show ?case
  proof (cases "parentElement n k")
    case None
    then show ?thesis using 3 by auto
  next
    case (Some a)
    then have "a \<in> set (ids k) \<and> n \<in> set (concat (map ids (kids k)))" using 3 by blast
    moreover have "set (concat (map ids (kids k))) \<subseteq> set (ids k)" by (cases k) auto
    ultimately show ?thesis using Some "3.prems" by auto
  qed
qed

lemma parent_None: "n \<notin> set (ids d) \<Longrightarrow> parentElement n d = None"
proof -
  assume a: "n \<notin> set (ids d)"
  have "set (concat (map ids (kids d))) \<subseteq> set (ids d)" by (cases d) auto
  then show ?thesis using a parent_in(1)[of n d] by (cases "parentElement n d") auto
qed

lemma parent_neq_root: "distinct (ids d) \<Longrightarrow> parentElement n d = Some q \<Longrightarrow> n \<noteq> nid d"
  using parent_in(1)[of n d q] by (cases d) auto

lemma replaced_gone:
  "e \<notin> set (ids t) \<Longrightarrow> nid d \<noteq> e \<Longrightarrow> e \<notin> set (ids (replaceSub e t d))"
proof (induction d)
  case (Node m ks)
  have "e \<notin> set (ids (if nid k = e then t else replaceSub e t k))" if "k \<in> set ks" for k
    using that Node by auto
  then show ?case using Node.prems by auto
qed

lemma replaced_has:
  "e \<in> set (ids d) \<Longrightarrow> nid d \<noteq> e \<Longrightarrow> set (ids t) \<subseteq> set (ids (replaceSub e t d))"
proof (induction d)
  case (Node m ks)
  then obtain k where k: "k \<in> set ks" "e \<in> set (ids k)" by auto
  have "set (ids t) \<subseteq> set (ids (if nid k = e then t else replaceSub e t k))"
    using Node.IH[OF k(1) k(2)] by auto
  then show ?case using k(1) by auto
qed

lemma ids_appendSub:
  "l \<in> set (ids d) \<Longrightarrow> set (ids (appendSub l t d)) = set (ids d) \<union> set (ids t)"
proof (induction d)
  case (Node m ks)
  show ?case
  proof (cases "m = l")
    case True
    then show ?thesis by auto
  next
    case False
    then obtain k where k: "k \<in> set ks" "l \<in> set (ids k)" using Node.prems by auto
    have a: "set (ids (appendSub l t k')) = set (ids k') \<union> (if l \<in> set (ids k') then set (ids t) else {})"
      if "k' \<in> set ks" for k'
      using Node.IH[OF that] appendSub_notin[of l k' t] by auto
    have "(\<Union>k'\<in>set ks. set (ids (appendSub l t k'))) = (\<Union>k'\<in>set ks. set (ids k')) \<union> set (ids t)"
      using a k by (auto split: if_splits)
    then show ?thesis using False by simp
  qed
qed

lemma replaced_keep:
  "distinct (ids d) \<Longrightarrow> subtreeAt e d = Some sub \<Longrightarrow> n \<in> set (ids d) \<Longrightarrow> n \<notin> set (ids sub)
   \<Longrightarrow> n \<in> set (ids (replaceSub e t d))"
proof (induction d)
  case (Node m ks)
  have dks: "distinct (concat (map ids ks))" using Node.prems(1) by simp
  show ?case
  proof (cases "n = m")
    case True
    then show ?thesis by simp
  next
    case False
    then obtain k where k: "k \<in> set ks" "n \<in> set (ids k)" using Node.prems(3) by auto
    have em: "e \<noteq> m" using Node.prems(2,4) False Node.prems(3) by (auto split: if_splits)
    have "nid k \<noteq> e"
    proof
      assume ne: "nid k = e"
      then have "subtreeIn e ks = subtreeAt e k"
        using subtreeIn_child[OF dks k(1)] nid_in_ids[of k] by auto
      then have "sub = k" using Node.prems(2) em ne subtreeAt_self[of k] by simp
      then show False using k(2) Node.prems(4) by simp
    qed
    moreover have "n \<in> set (ids (replaceSub e t k))"
    proof (cases "e \<in> set (ids k)")
      case True
      then have "subtreeAt e k = Some sub"
        using subtreeIn_child[OF dks k(1) True] Node.prems(2) em by simp
      then show ?thesis
        using Node.IH[OF k(1) distinct_child[OF dks k(1)]] k(2) Node.prems(4) by simp
    next
      case False
      then show ?thesis using k(2) by (simp add: replaceSub_notin)
    qed
    ultimately show ?thesis using k(1) by auto
  qed
qed

lemma parentIn_append:
  "parentIn n (ks @ ks') = (case parentIn n ks of Some q \<Rightarrow> Some q | None \<Rightarrow> parentIn n ks')"
  by (induction ks) (auto split: option.splits)

lemma parentIn_None: "n \<notin> set (concat (map ids ks)) \<Longrightarrow> parentIn n ks = None"
  using parent_in(2)[of n ks] by (cases "parentIn n ks") auto

lemma parentIn_map_cong:
  "(\<And>k. k \<in> set ks \<Longrightarrow> parentElement n (f k) = parentElement m k)
   \<Longrightarrow> parentIn n (map f ks) = parentIn m ks"
  by (induction ks) (auto split: option.splits)

lemma parent_appendSub:
  "n \<notin> set (ids t) \<Longrightarrow> parentElement n (appendSub l t d) = parentElement n d"
proof (induction d)
  case (Node m ks)
  have nt: "n \<noteq> nid t" using Node.prems nid_in_ids[of t] by auto
  show ?case
  proof (cases "m = l")
    case True
    have "parentElement n t = None" using Node.prems by (rule parent_None)
    then have "parentIn n (ks @ [t]) = parentIn n ks"
      by (simp add: parentIn_append split: option.splits)
    then show ?thesis using True nt by simp
  next
    case False
    have "parentIn n (map (appendSub l t) ks) = parentIn n ks"
      using Node by (intro parentIn_map_cong) auto
    moreover have "map nid (map (appendSub l t) ks) = map nid ks" by simp
    ultimately show ?thesis using False by (simp del: map_map)
  qed
qed

lemma parent_replaced:
  "distinct (ids d) \<Longrightarrow> p \<notin> set (ids d)
   \<Longrightarrow> parentElement p (replaceSub e (Node p []) d) = parentElement e d"
proof (induction d)
  case (Node m ks)
  let ?f = "\<lambda>k. if nid k = e then Node p [] else replaceSub e (Node p []) k"
  have dks: "distinct (concat (map ids ks))" using Node.prems(1) by simp
  have nidp: "nid k \<noteq> p" if "k \<in> set ks" for k
    using that Node.prems(2) nid_in_ids[of k] by auto
  have mem: "(p \<in> set (map nid (map ?f ks))) = (e \<in> set (map nid ks))"
    using nidp by (auto simp: image_iff)
  have "parentIn p (map ?f ks) = parentIn e ks"
  proof (intro parentIn_map_cong)
    fix k assume kin: "k \<in> set ks"
    have kd: "distinct (ids k)" using dks kin by (rule distinct_child)
    show "parentElement p (?f k) = parentElement e k"
    proof (cases "nid k = e")
      case True
      have "parentElement e k = None"
      proof (cases "parentElement e k")
        case (Some q)
        then have "e \<noteq> nid k" using kd parent_neq_root by blast
        then show ?thesis using True by simp
      qed simp
      then show ?thesis using True by simp
    next
      case False
      then show ?thesis using Node.IH[OF kin kd] Node.prems(2) kin by auto
    qed
  qed
  then show ?case using mem by (simp del: map_map)
qed

lemma subtreeIn_append:
  "subtreeIn n (ks @ ks') = (case subtreeIn n ks of Some t \<Rightarrow> Some t | None \<Rightarrow> subtreeIn n ks')"
  by (induction ks) (auto split: option.splits)

lemma subtreeIn_map_appended:
  "(\<And>k. k \<in> set ks \<Longrightarrow> l \<in> set (ids k) \<Longrightarrow> subtreeAt n (f k) = Some t)
   \<Longrightarrow> (\<And>k. k \<in> set ks \<Longrightarrow> l \<notin> set (ids k) \<Longrightarrow> subtreeAt n (f k) = None)
   \<Longrightarrow> l \<in> set (concat (map ids ks))
   \<Longrightarrow> subtreeIn n (map f ks) = Some t"
proof (induction ks)
  case Nil
  then show ?case by simp
next
  case (Cons a ks)
  show ?case
  proof (cases "l \<in> set (ids a)")
    case True
    then have "subtreeAt n (f a) = Some t" using Cons.prems(1) by simp
    then show ?thesis by simp
  next
    case False
    then have "subtreeAt n (f a) = None" using Cons.prems(2) by simp
    moreover have "subtreeIn n (map f ks) = Some t"
      using Cons False by auto
    ultimately show ?thesis by simp
  qed
qed

lemma subtree_appended:
  "l \<in> set (ids d) \<Longrightarrow> nid t \<notin> set (ids d) \<Longrightarrow> subtreeAt (nid t) (appendSub l t d) = Some t"
proof (induction d)
  case (Node m ks)
  have nm: "nid t \<noteq> m" using Node.prems(2) by auto
  have none: "subtreeIn (nid t) ks = None" using Node.prems(2) by (simp add: subtree_None)
  show ?case
  proof (cases "m = l")
    case True
    then show ?thesis using nm none subtreeAt_self[of t]
      by (simp add: subtreeIn_append)
  next
    case False
    have "subtreeIn (nid t) (map (appendSub l t) ks) = Some t"
    proof (rule subtreeIn_map_appended[where l = l])
      fix k assume "k \<in> set ks" "l \<in> set (ids k)"
      then show "subtreeAt (nid t) (appendSub l t k) = Some t"
        using Node.IH Node.prems(2) by auto
    next
      fix k assume "k \<in> set ks" "l \<notin> set (ids k)"
      then show "subtreeAt (nid t) (appendSub l t k) = None"
        using Node.prems(2) by (auto simp: appendSub_notin subtree_None)
    next
      show "l \<in> set (concat (map ids ks))" using Node.prems(1) False by auto
    qed
    then show ?thesis using False nm by simp
  qed
qed

lemma parent_outside_subtree:
  "distinct (ids d) \<Longrightarrow> parentElement e d = Some par \<Longrightarrow> subtreeAt e d = Some sub
   \<Longrightarrow> par \<notin> set (ids sub)"
proof (induction d arbitrary: par)
  case (Node m ks)
  have dks: "distinct (concat (map ids ks))" and mnot: "m \<notin> set (concat (map ids ks))"
    using Node.prems(1) by auto
  have em: "e \<noteq> m" using parent_neq_root[OF Node.prems(1) Node.prems(2)] by simp
  then have sin: "subtreeIn e ks = Some sub" using Node.prems(3) by simp
  have "e \<in> set (concat (map ids ks))" using sin subtree_None(2)[of e ks] by auto
  then obtain k where k: "k \<in> set ks" "e \<in> set (ids k)" by auto
  have sk: "subtreeAt e k = Some sub" using subtreeIn_child[OF dks k] sin by simp
  have subk: "set (ids sub) \<subseteq> set (ids k)" using subtree_Some(1)[OF sk] by simp
  show ?case
  proof (cases "e \<in> set (map nid ks)")
    case True
    then have "par = m" using Node.prems(2) by simp
    then show ?thesis using subk mnot k(1) by auto
  next
    case False
    then have pin: "parentIn e ks = Some par" using Node.prems(2) by simp
    have "parentIn e ks = parentElement e k"
      using dks k
    proof (induction ks)
      case Nil
      then show ?case by simp
    next
      case (Cons a ks)
      show ?case
      proof (cases "k = a")
        case True
        then show ?thesis
          using Cons.prems parentIn_None[of e ks] by (auto split: option.splits)
      next
        case False
        then have "e \<notin> set (ids a)" using Cons.prems by auto
        then have "parentElement e a = None" by (rule parent_None)
        then show ?thesis using Cons False by auto
      qed
    qed
    then have "parentElement e k = Some par" using pin by simp
    then show ?thesis using Node.IH[OF k(1) distinct_child[OF dks k(1)] _ sk] by simp
  qed
qed

section \<open>What the steps of a cycle leave alone\<close>

lemma sameShape_refl [simp]: "sameShape s s"
  by (simp add: sameShape_def)

lemma sameShape_trans: "sameShape s s1 \<Longrightarrow> sameShape s1 s2 \<Longrightarrow> sameShape s s2"
  by (auto simp: sameShape_def)

lemma sameLatches_refl [simp]: "sameLatches s s"
  by (simp add: sameLatches_def)

lemma sameLatches_trans: "sameLatches s s1 \<Longrightarrow> sameLatches s1 s2 \<Longrightarrow> sameLatches s s2"
  by (simp add: sameLatches_def)

lemma setStyle_proj [simp]:
  "fixedElements (setStyle el k v s) = fixedElements s"
  "document (setStyle el k v s) = document s"
  "className (setStyle el k v s) = className s"
  "body (setStyle el k v s) = body s"
  "transfer (setStyle el k v s) = transfer s"
  "paddingTop (setStyle el k v s) = paddingTop s"
  "fixedLayer (setStyle el k v s) = fixedLayer s"
  "nextNode (setStyle el k v s) = nextNode s"
  "reported (setStyle el k v s) = reported s"
  by (simp_all add: setStyle_def)

lemma setStyles_proj [simp]:
  "fixedElements (setStyles el kvs s) = fixedElements s"
  "document (setStyles el kvs s) = document s"
  "className (setStyles el kvs s) = className s"
  "body (setStyles el kvs s) = body s"
  "transfer (setStyles el kvs s) = transfer s"
  "paddingTop (setStyles el kvs s) = paddingTop s"
  "fixedLayer (setStyles el kvs s) = fixedLayer s"
  "nextNode (setStyles el kvs s) = nextNode s"
  "reported (setStyles el kvs s) = reported s"
  unfolding setStyles_def
  by (induction kvs arbitrary: s; simp split: prod.splits)+

lemma setAttribute_proj [simp]:
  "fixedElements (setAttribute el k v s) = fixedElements s"
  "document (setAttribute el k v s) = document s"
  "className (setAttribute el k v s) = className s"
  "body (setAttribute el k v s) = body s"
  "transfer (setAttribute el k v s) = transfer s"
  "paddingTop (setAttribute el k v s) = paddingTop s"
  "fixedLayer (setAttribute el k v s) = fixedLayer s"
  "nextNode (setAttribute el k v s) = nextNode s"
  "reported (setAttribute el k v s) = reported s"
  "inlineStyle (setAttribute el k v s) = inlineStyle s"
  "styleWrites (setAttribute el k v s) = styleWrites s"
  by (simp_all add: setAttribute_def)

lemma report_proj [simp]:
  "fixedElements (report e s) = fixedElements s"
  "document (report e s) = document s"
  "className (report e s) = className s"
  "body (report e s) = body s"
  "transfer (report e s) = transfer s"
  "paddingTop (report e s) = paddingTop s"
  "fixedLayer (report e s) = fixedLayer s"
  "nextNode (report e s) = nextNode s"
  "inlineStyle (report e s) = inlineStyle s"
  "styleWrites (report e s) = styleWrites s"
  by (simp_all add: report_def)

lemma frame_report [simp]: "sameShape s (report e s)" "sameLatches s (report e s)"
  by (simp_all add: sameShape_def sameLatches_def)

lemma frame_document [simp]:
  "sameShape s (s\<lparr>document := d\<rparr>)" "sameLatches s (s\<lparr>document := d\<rparr>)"
  by (simp_all add: sameShape_def sameLatches_def)

lemma frame_setStyle [simp]:
  "sameShape s (setStyle el k v s)" "sameLatches s (setStyle el k v s)"
  by (simp_all add: sameShape_def sameLatches_def)

lemma map_update_same [simp]: "(map f xs)[i := f (xs ! i)] = map f xs"
  by (cases "i < length xs") (simp_all add: list_update_same_conv list_update_beyond)

lemma frame_getFixedLayer:
  "sameShape s (snd (getFixedLayer s))" "sameLatches s (snd (getFixedLayer s))"
  by (simp_all add: getFixedLayer_def createElement_def Let_def sameShape_def sameLatches_def)

lemma frame_returnFromFixedLayer:
  "sameShape s (stateOf (returnFromFixedLayer fe s))"
  "sameLatches s (stateOf (returnFromFixedLayer fe s))"
  by (auto simp: returnFromFixedLayer_def Let_def sameShape_def sameLatches_def
        split: option.splits sum.splits)

lemma frame_matches:
  "sameShape s (snd (matches env el sel s))" "sameLatches s (snd (matches env el sel s))"
  by (auto simp: matches_def split: option.splits sum.splits)

lemma frame_someMatches:
  "sameShape s (snd (someMatches env el sels s)) \<and> sameLatches s (snd (someMatches env el sels s))"
proof (induction sels arbitrary: s)
  case Nil
  show ?case by simp
next
  case (Cons sel sels)
  show ?case
    using Cons.IH[of "snd (matches env el sel s)"] frame_matches[of s env el sel]
    by (auto simp: Let_def split: prod.splits intro: sameShape_trans sameLatches_trans)
qed

lemma frame_ensurePlaceholder:
  "sameShape s (snd (ensurePlaceholder i s))" "sameLatches s (snd (ensurePlaceholder i s))"
  by (auto simp: ensurePlaceholder_def Let_def createElement_def setFe_def
        sameShape_def sameLatches_def map_update list_update_same_conv
        split: option.splits)


lemma frame_appendToLayer:
  "sameShape s (stateOf (appendToLayer sub s))" "sameLatches s (stateOf (appendToLayer sub s))"
  using frame_getFixedLayer[of s]
  by (auto simp: appendToLayer_def Let_def split: prod.splits option.splits sum.splits
        intro: sameShape_trans sameLatches_trans)

lemma frame_rematch:
  "sameShape s (stateOf (rematch env i s))" "sameLatches s (stateOf (rematch env i s))"
  using frame_someMatches[of s env "element (fixedElements s ! i)" "selectors (fixedElements s ! i)"]
    frame_returnFromFixedLayer
  by (auto simp: rematch_def Let_def split: prod.splits
        intro: sameShape_trans sameLatches_trans)

lemma frame_transferToFixedLayer:
  "sameShape s (stateOf (transferToFixedLayer env i m s))"
  "sameLatches s (stateOf (transferToFixedLayer env i m s))"
proof -
  let ?el = "element (fixedElements s ! i)"
  obtain p s1 where ep: "ensurePlaceholder i s = (p, s1)" by (cases "ensurePlaceholder i s")
  define s2 where "s2 = setStyle ?el ''zIndex'' (transferZIndex i (st_zIndex m)) s1"
  have f1: "sameShape s s2" "sameLatches s s2"
    using frame_ensurePlaceholder[of s i] ep
    by (auto simp: s2_def intro: sameShape_trans sameLatches_trans)
  have f3: "sameShape s (stateOf (rematch env i s3)) \<and> sameLatches s (stateOf (rematch env i s3))"
    if "appendToLayer sub (s2\<lparr>document := d\<rparr>) = Ok s3" for sub d s3
  proof -
    have "sameShape s2 s3" "sameLatches s2 s3"
      using frame_appendToLayer[of "s2\<lparr>document := d\<rparr>" sub] that
      by (auto simp: sameShape_def sameLatches_def)
    then show ?thesis
      using f1 frame_rematch[of s3 env i]
      by (blast intro: sameShape_trans sameLatches_trans)
  qed
  have f4: "sameShape s s3 \<and> sameLatches s s3"
    if "appendToLayer sub (s2\<lparr>document := d\<rparr>) = Throw e s3" for sub d s3 e
  proof -
    have "sameShape s2 s3" "sameLatches s2 s3"
      using frame_appendToLayer[of "s2\<lparr>document := d\<rparr>" sub] that
      by (auto simp: sameShape_def sameLatches_def)
    then show ?thesis using f1 by (blast intro: sameShape_trans sameLatches_trans)
  qed
  show "sameShape s (stateOf (transferToFixedLayer env i m s))"
    using f1 f3 f4 ep
    by (auto simp: transferToFixedLayer_def Let_def s2_def
          split: option.splits sum.splits result.splits prod.splits)
  show "sameLatches s (stateOf (transferToFixedLayer env i m s))"
    using f1 f3 f4 ep
    by (auto simp: transferToFixedLayer_def Let_def s2_def
          split: option.splits sum.splits result.splits prod.splits)
qed

lemma after_return:
  "sameShape s s' \<Longrightarrow> sameShape s (stateOf (returnFromFixedLayer fe s'))"
  "sameLatches s s' \<Longrightarrow> sameLatches s (stateOf (returnFromFixedLayer fe s'))"
  using frame_returnFromFixedLayer by (blast intro: sameShape_trans sameLatches_trans)+

lemma after_transfer:
  "sameShape s s' \<Longrightarrow> sameShape s (stateOf (transferToFixedLayer env i m s'))"
  "sameLatches s s' \<Longrightarrow> sameLatches s (stateOf (transferToFixedLayer env i m s'))"
  using frame_transferToFixedLayer by (blast intro: sameShape_trans sameLatches_trans)+

lemma latches_mutateFixedElement:
  "map fixedNow (fixedElements (stateOf (mutateFixedElement env i m s)))
   = (map fixedNow (fixedElements s))[i := Some (fixed m)]"
proof (cases "fixedNow (fixedElements s ! i) = Some (fixed m)")
  case True
  have "(map fixedNow (fixedElements s))[i := fixedNow (fixedElements s ! i)]
        = map fixedNow (fixedElements s)" by (rule map_update_same)
  then show ?thesis using True by (simp add: mutateFixedElement_def Let_def)
next
  case False
  define s1 where "s1 = setFe i ((fixedElements s ! i)\<lparr>fixedNow := Some (fixed m)\<rparr>) s"
  have l1: "map fixedNow (fixedElements s1) = (map fixedNow (fixedElements s))[i := Some (fixed m)]"
    by (simp add: s1_def setFe_def map_update)
  have "sameLatches s1 (stateOf (mutateFixedElement env i m s))"
    using False
    by (auto simp: mutateFixedElement_def Let_def s1_def[symmetric]
          intro!: after_return(2) after_transfer(2))
  then show ?thesis using l1 by (simp add: sameLatches_def)
qed

lemma shape_setFe_fixedNow:
  "sameShape s (setFe i ((fixedElements s ! i)\<lparr>fixedNow := b\<rparr>) s)"
  by (simp add: sameShape_def setFe_def map_update)

lemma frame_mutateFixedElement:
  "sameShape s (stateOf (mutateFixedElement env i m s))"
proof -
  define s1 where "s1 = setFe i ((fixedElements s ! i)\<lparr>fixedNow := Some (fixed m)\<rparr>) s"
  have a: "sameShape s s1" by (simp add: s1_def shape_setFe_fixedNow)
  have "sameShape s1 (stateOf (mutateFixedElement env i m s))
        \<or> stateOf (mutateFixedElement env i m s) = s"
    by (auto simp: mutateFixedElement_def Let_def s1_def[symmetric]
          intro!: after_return(1) after_transfer(1))
  then show ?thesis using a by (auto intro: sameShape_trans)
qed

lemma sameShape_length: "sameShape s s' \<Longrightarrow> length (fixedElements s') = length (fixedElements s)"
  by (metis length_map sameShape_def)

lemma sameShape_fe_id:
  "sameShape s s' \<Longrightarrow> i < length (fixedElements s)
   \<Longrightarrow> fe_id (fixedElements s' ! i) = fe_id (fixedElements s ! i)"
proof -
  assume a: "sameShape s s'" and i: "i < length (fixedElements s)"
  then have "map fe_id (fixedElements s') ! i = map fe_id (fixedElements s) ! i"
    by (simp add: sameShape_def)
  then show ?thesis using i sameShape_length[OF a] by simp
qed

lemma frame_mutateEach: "sameShape s (stateOf (mutateEach env st is s))"
proof (induction "is" arbitrary: s)
  case Nil
  show ?case by simp
next
  case (Cons i "is")
  show ?case
  proof (cases "st (fe_id (fixedElements s ! i))")
    case None
    then show ?thesis using Cons.IH[of s] by simp
  next
    case (Some m)
    show ?thesis
    proof (cases "mutateFixedElement env i m s")
      case (Ok s')
      then have "sameShape s s'" using frame_mutateFixedElement[of s env i m] by simp
      then show ?thesis using Some Ok Cons.IH[of s'] by (auto intro: sameShape_trans)
    next
      case (Throw e s')
      then have "sameShape s s'" using frame_mutateFixedElement[of s env i m] by simp
      then show ?thesis using Some Throw by simp
    qed
  qed
qed

lemma latch_nth:
  "map fixedNow (fixedElements s') = (map fixedNow (fixedElements s))[i := b]
   \<Longrightarrow> j < length (fixedElements s)
   \<Longrightarrow> fixedNow (fixedElements s' ! j) = (if j = i then b else fixedNow (fixedElements s ! j))"
proof -
  assume a: "map fixedNow (fixedElements s') = (map fixedNow (fixedElements s))[i := b]"
    and j: "j < length (fixedElements s)"
  have len: "length (fixedElements s') = length (fixedElements s)"
    using a by (metis length_list_update length_map)
  have "map fixedNow (fixedElements s') ! j = (map fixedNow (fixedElements s))[i := b] ! j"
    using a by simp
  then show ?thesis using j len by (simp add: nth_list_update)
qed

text \<open>After a loop that returned, every index it visited is latched on its measurement.\<close>

lemma mutateEach_latches:
  "mutateEach env st is s = Ok s' \<Longrightarrow> j < length (fixedElements s)
   \<Longrightarrow> (j \<in> set is \<or> (\<forall>m. st (fe_id (fixedElements s ! j)) = Some m
                      \<longrightarrow> fixedNow (fixedElements s ! j) = Some (fixed m)))
   \<Longrightarrow> st (fe_id (fixedElements s ! j)) = Some m
   \<Longrightarrow> fixedNow (fixedElements s' ! j) = Some (fixed m)"
proof (induction "is" arbitrary: s)
  case Nil
  then show ?case by simp
next
  case (Cons i "is")
  show ?case
  proof (cases "st (fe_id (fixedElements s ! i))")
    case None
    have "j \<noteq> i \<or> j \<notin> set (i # is)" using None Cons.prems(4) by auto
    then have "j \<in> set is \<or> (\<forall>m. st (fe_id (fixedElements s ! j)) = Some m
                      \<longrightarrow> fixedNow (fixedElements s ! j) = Some (fixed m))"
      using Cons.prems(3) by auto
    then show ?thesis using None Cons.IH[of s] Cons.prems by simp
  next
    case (Some mi)
    show ?thesis
    proof (cases "mutateFixedElement env i mi s")
      case (Throw e s1)
      then show ?thesis using Some Cons.prems(1) by simp
    next
      case (Ok s1)
      have sh: "sameShape s s1" using frame_mutateFixedElement[of s env i mi] Ok by simp
      have la: "map fixedNow (fixedElements s1) = (map fixedNow (fixedElements s))[i := Some (fixed mi)]"
        using latches_mutateFixedElement[of env i mi s] Ok by simp
      have j1: "j < length (fixedElements s1)" using sh Cons.prems(2) sameShape_length by simp
      have idj: "fe_id (fixedElements s1 ! j) = fe_id (fixedElements s ! j)"
        using sameShape_fe_id[OF sh Cons.prems(2)] .
      have fj: "fixedNow (fixedElements s1 ! j)
                = (if j = i then Some (fixed mi) else fixedNow (fixedElements s ! j))"
        using latch_nth[OF la Cons.prems(2)] .
      have "j \<in> set is \<or> (\<forall>m. st (fe_id (fixedElements s1 ! j)) = Some m
                      \<longrightarrow> fixedNow (fixedElements s1 ! j) = Some (fixed m))"
      proof (cases "j = i")
        case True
        then show ?thesis using fj idj Some by simp
      next
        case False
        then show ?thesis using fj idj Cons.prems(3) by auto
      qed
      moreover have "mutateEach env st is s1 = Ok s'" using Cons.prems(1) Some Ok by simp
      moreover have "st (fe_id (fixedElements s1 ! j)) = Some m" using idj Cons.prems(4) by simp
      ultimately show ?thesis using Cons.IH[of s1] j1 by blast
    qed
  qed
qed

text \<open>A loop over latched entries does nothing.\<close>

lemma mutateEach_latched:
  "(\<And>i m. i \<in> set is \<Longrightarrow> st (fe_id (fixedElements s ! i)) = Some m
      \<Longrightarrow> fixedNow (fixedElements s ! i) = Some (fixed m))
   \<Longrightarrow> mutateEach env st is s = Ok s"
proof (induction "is")
  case Nil
  show ?case by simp
next
  case (Cons i "is")
  have rest: "mutateEach env st is s = Ok s" using Cons by simp
  show ?case
  proof (cases "st (fe_id (fixedElements s ! i))")
    case None
    then show ?thesis using rest by simp
  next
    case (Some m)
    then have "fixedNow (fixedElements s ! i) = Some (fixed m)" using Cons.prems by simp
    then have "mutateFixedElement env i m s = Ok s" by (simp add: mutateFixedElement_def Let_def)
    then show ?thesis using Some rest by simp
  qed
qed

lemma measureElement_cong: "element fe' = element fe \<Longrightarrow> measureElement env fe' = measureElement env fe"
  by (simp add: measureElement_def)

lemma measureStep_cong:
  "fe_id fe' = fe_id fe \<Longrightarrow> element fe' = element fe
   \<Longrightarrow> measureStep env acc fe' = measureStep env acc fe"
  by (simp add: measureStep_def measureElement_cong[of fe' fe])

lemma measure_foldl_cong:
  "map fe_id fes' = map fe_id fes \<Longrightarrow> map element fes' = map element fes \<Longrightarrow>
   foldl (measureStep env) acc fes' = foldl (measureStep env) acc fes"
proof (induction fes arbitrary: fes' acc)
  case Nil
  then show ?case by simp
next
  case (Cons fe fes)
  then obtain fe' fes1 where f: "fes' = fe' # fes1" by (cases fes') auto
  have e: "fe_id fe' = fe_id fe" "element fe' = element fe" using Cons.prems f by auto
  have "measureStep env acc fe' = measureStep env acc fe" using e by (rule measureStep_cong)
  then show ?case using Cons.prems f Cons.IH[of fes1] by simp
qed

lemma measurePhase_shape:
  "sameShape s s' \<Longrightarrow> measurePhase env (fixedElements s') = measurePhase env (fixedElements s)"
  unfolding measurePhase_def by (rule measure_foldl_cong) (simp_all add: sameShape_def)

lemma syncLayerClass_Ok:
  "syncLayerClass s = Ok s' \<Longrightarrow>
     fixedElements s' = fixedElements s \<and> transfer s' = transfer s
     \<and> (\<exists>l. fixedLayer s' = Some l \<and> className s' l = className s' (body s'))"
  by (auto simp: syncLayerClass_def getFixedLayer_def createElement_def Let_def
        split: prod.splits option.splits if_splits)

lemma syncLayerClass_noop:
  "fixedLayer s = Some l \<Longrightarrow> className s l = className s (body s) \<Longrightarrow> syncLayerClass s = Ok s"
  by (simp add: syncLayerClass_def getFixedLayer_def)

lemma pruneDetached_noop:
  "\<forall>fe\<in>set (fixedElements s). contains (document s) (element fe) \<Longrightarrow> pruneDetached s = s"
proof -
  assume "\<forall>fe\<in>set (fixedElements s). contains (document s) (element fe)"
  then have "filter (\<lambda>fe. \<not> contains (document s) (element fe)) (fixedElements s) = []"
    by (simp add: filter_empty_conv)
  then show ?thesis by (simp add: pruneDetached_def)
qed

text \<open>A cycle that returned has latched every entry it measured.\<close>

lemma runCycle_again:
  assumes ok: "runCycle env s0 = Ok s1"
  shows "runCycle env s1 = Ok s1"
proof -
  obtain st hasT where mp: "measurePhase env (fixedElements s0) = (st, hasT)"
    by (cases "measurePhase env (fixedElements s0)")
  have m1: "mutatePhase env st hasT s0 = Ok s1" using ok mp by (simp add: runCycle_def)
  define sync where "sync = (hasT \<and> transfer s0)"
  obtain s0' where s0': "(if sync then syncLayerClass s0 else Ok s0) = Ok s0'"
    and loop: "mutateEach env st [0..<length (fixedElements s0')] s0' = Ok s1"
    using m1 by (auto simp: mutatePhase_def sync_def split: result.splits)
  have fes: "fixedElements s0' = fixedElements s0" and tr: "transfer s0' = transfer s0"
    using s0' syncLayerClass_Ok[of s0 s0'] by (auto split: if_splits)
  have sh: "sameShape s0' s1"
    using frame_mutateEach[of s0' env st "[0..<length (fixedElements s0')]"] loop by simp
  have len: "length (fixedElements s1) = length (fixedElements s0')"
    using sh by (rule sameShape_length)
  have "measurePhase env (fixedElements s1) = measurePhase env (fixedElements s0')"
    using sh by (rule measurePhase_shape)
  then have mp1: "measurePhase env (fixedElements s1) = (st, hasT)" using fes mp by simp
  have tr1: "transfer s1 = transfer s0" using sh tr by (simp add: sameShape_def)
  have sync1: "(if hasT \<and> transfer s1 then syncLayerClass s1 else Ok s1) = Ok s1"
  proof (cases sync)
    case False
    then show ?thesis using tr1 by (auto simp: sync_def)
  next
    case True
    then obtain l where l: "fixedLayer s0' = Some l" "className s0' l = className s0' (body s0')"
      using s0' syncLayerClass_Ok[of s0 s0'] by auto
    have "fixedLayer s1 = Some l" "className s1 = className s0'" "body s1 = body s0'"
      using sh l by (auto simp: sameShape_def)
    then have "syncLayerClass s1 = Ok s1" using l syncLayerClass_noop[of s1 l] by simp
    then show ?thesis by simp
  qed
  have latched: "fixedNow (fixedElements s1 ! i) = Some (fixed m)"
    if "i \<in> set [0..<length (fixedElements s1)]" "st (fe_id (fixedElements s1 ! i)) = Some m" for i m
  proof -
    have i: "i < length (fixedElements s0')" using that(1) len by simp
    have "fe_id (fixedElements s1 ! i) = fe_id (fixedElements s0' ! i)"
      using sameShape_fe_id[OF sh i] .
    then have "st (fe_id (fixedElements s0' ! i)) = Some m" using that(2) by simp
    moreover have "i \<in> set [0..<length (fixedElements s0')]" using i by simp
    ultimately show ?thesis using mutateEach_latches[OF loop i] by blast
  qed
  have "mutateEach env st [0..<length (fixedElements s1)] s1 = Ok s1"
    using latched by (rule mutateEach_latched)
  then show ?thesis using mp1 sync1 by (simp add: runCycle_def mutatePhase_def)
qed

lemma update_twice:
  assumes "runCycle env (pruneDetached s) = Ok s1"
    and "\<forall>fe\<in>set (fixedElements s1). contains (document s1) (element fe)"
  shows "update env (update env s) = update env s"
proof (cases "fixedElements s = []")
  case True
  then show ?thesis by (simp add: update_def)
next
  case False
  then have u: "update env s = s1" using assms(1) by (simp add: update_def)
  have "pruneDetached s1 = s1" using assms(2) by (rule pruneDetached_noop)
  moreover have "runCycle env s1 = Ok s1" using assms(1) by (rule runCycle_again)
  ultimately have "update env s1 = s1" by (simp add: update_def)
  then show ?thesis using u by simp
qed

section \<open>Facts about the re-match and the transfer\<close>

lemma matches_proj [simp]:
  "document (snd (matches env el sel s)) = document s"
  "fixedElements (snd (matches env el sel s)) = fixedElements s"
  "inlineStyle (snd (matches env el sel s)) = inlineStyle s"
  "fixedLayer (snd (matches env el sel s)) = fixedLayer s"
  "styleWrites (snd (matches env el sel s)) = styleWrites s"
  by (auto simp: matches_def split: option.splits sum.splits)

lemma someMatches_proj [simp]:
  "document (snd (someMatches env el sels s)) = document s"
  "fixedElements (snd (someMatches env el sels s)) = fixedElements s"
  "inlineStyle (snd (someMatches env el sels s)) = inlineStyle s"
  "fixedLayer (snd (someMatches env el sels s)) = fixedLayer s"
  "styleWrites (snd (someMatches env el sels s)) = styleWrites s"
  by (induction sels arbitrary: s; simp add: Let_def split: prod.splits;
      metis matches_proj snd_conv)+

lemma someMatches_none:
  "(\<And>sel mt. sel \<in> set sels \<Longrightarrow> matcher env el = Some mt \<Longrightarrow> mt (document s) sel \<noteq> Inr True)
   \<Longrightarrow> fst (someMatches env el sels s) = False"
proof (induction sels arbitrary: s)
  case Nil
  show ?case by simp
next
  case (Cons sel sels)
  have a: "fst (matches env el sel s) = False"
    using Cons.prems[of sel] by (auto simp: matches_def split: option.splits sum.splits)
  obtain b s' where ms: "matches env el sel s = (b, s')" by (cases "matches env el sel s")
  have "fst (someMatches env el sels (snd (matches env el sel s))) = False"
    using Cons.prems by (intro Cons.IH) simp_all
  then show ?case using a ms by simp
qed

lemma transferZIndex_nonempty: "transferZIndex i z \<noteq> []"
  by (simp add: transferZIndex_def)

lemma ensurePlaceholder_facts:
  assumes "i < length (fixedElements s)" and "ensurePlaceholder i s = (q, s1)"
  shows "q = (case placeholder (fixedElements s ! i) of Some q \<Rightarrow> q | None \<Rightarrow> nextNode s)"
    and "document s1 = document s" and "fixedLayer s1 = fixedLayer s"
    and "transfer s1 = transfer s"
    and "element (fixedElements s1 ! i) = element (fixedElements s ! i)"
    and "selectors (fixedElements s1 ! i) = selectors (fixedElements s ! i)"
    and "placeholder (fixedElements s1 ! i) = Some q"
  using assms
  by (auto simp: ensurePlaceholder_def Let_def createElement_def setFe_def
        split: option.splits)

lemma parentIn_map_appended:
  "(\<And>k. k \<in> set ks \<Longrightarrow> l \<in> set (ids k) \<Longrightarrow> parentElement n (f k) = Some q)
   \<Longrightarrow> (\<And>k. k \<in> set ks \<Longrightarrow> l \<notin> set (ids k) \<Longrightarrow> parentElement n (f k) = None)
   \<Longrightarrow> l \<in> set (concat (map ids ks))
   \<Longrightarrow> parentIn n (map f ks) = Some q"
proof (induction ks)
  case Nil
  then show ?case by simp
next
  case (Cons a ks)
  show ?case
  proof (cases "l \<in> set (ids a)")
    case True
    then have "parentElement n (f a) = Some q" using Cons.prems(1) by simp
    then show ?thesis by simp
  next
    case False
    then have "parentElement n (f a) = None" using Cons.prems(2) by simp
    moreover have "parentIn n (map f ks) = Some q"
      using Cons False by auto
    ultimately show ?thesis by simp
  qed
qed

lemma parent_appended:
  "l \<in> set (ids d) \<Longrightarrow> nid t \<notin> set (ids d) \<Longrightarrow> parentElement (nid t) (appendSub l t d) = Some l"
proof (induction d)
  case (Node m ks)
  show ?case
  proof (cases "m = l")
    case True
    then show ?thesis by simp
  next
    case False
    have notkid: "nid t \<notin> set (map nid (map (appendSub l t) ks))"
    proof
      assume "nid t \<in> set (map nid (map (appendSub l t) ks))"
      then obtain k where "k \<in> set ks" "nid k = nid t" by auto
      then have "nid t \<in> set (ids (Node m ks))" using nid_in_ids[of k] by auto
      then show False using Node.prems(2) by simp
    qed
    have "parentIn (nid t) (map (appendSub l t) ks) = Some l"
    proof (rule parentIn_map_appended[where l = l])
      fix k assume "k \<in> set ks" "l \<in> set (ids k)"
      then show "parentElement (nid t) (appendSub l t k) = Some l"
        using Node.IH Node.prems(2) by auto
    next
      fix k assume "k \<in> set ks" "l \<notin> set (ids k)"
      then show "parentElement (nid t) (appendSub l t k) = None"
        using Node.prems(2) by (auto simp: appendSub_notin intro: parent_None)
    next
      show "l \<in> set (concat (map ids ks))" using Node.prems(1) False by auto
    qed
    then show ?thesis using False notkid by (simp del: map_map)
  qed
qed

lemma someMatches_exists:
  "matcher env el = Some mt \<Longrightarrow> sel \<in> set sels \<Longrightarrow> mt (document s) sel = Inr True
   \<Longrightarrow> fst (someMatches env el sels s) = True"
proof (induction sels arbitrary: s)
  case Nil
  then show ?case by simp
next
  case (Cons x xs)
  obtain b s' where ms: "matches env el x s = (b, s')" by (cases "matches env el x s")
  have ds': "document s' = document s" using matches_proj(1)[of env el x s] ms by simp
  show ?case
  proof (cases b)
    case True
    then show ?thesis using ms by simp
  next
    case False
    then have "x \<noteq> sel" using ms Cons.prems(1,3) by (auto simp: matches_def)
    then have "sel \<in> set xs" using Cons.prems(2) by simp
    then show ?thesis using ms False Cons.IH[of s'] Cons.prems(1,3) ds' by simp
  qed
qed

text \<open>
  The first half of a transfer, up to the re-match: the placeholder stands in the
  element's place and the element is the last child of the layer.
\<close>

lemma transfer_reaches_rematch:
  fixes s :: fixedLayerState and i :: nat
  defines "fe \<equiv> fixedElements s ! i"
  defines "el \<equiv> element fe"
  defines "p \<equiv> (case placeholder fe of Some q \<Rightarrow> q | None \<Rightarrow> nextNode s)"
  assumes i: "i < length (fixedElements s)"
    and d: "distinct (ids (document s))"
    and par: "parentElement el (document s) = Some par"
    and sub: "subtreeAt el (document s) = Some sub"
    and layer: "fixedLayer s = Some l" "l \<in> set (ids (document s))" "l \<notin> set (ids sub)" "par \<noteq> l"
    and ph: "p \<notin> set (ids (document s))"
  shows "\<exists>s3. transferToFixedLayer env i m s = rematch env i s3
        \<and> document s3 = appendSub l sub (replaceSub el (Node p []) (document s))
        \<and> element (fixedElements s3 ! i) = el
        \<and> selectors (fixedElements s3 ! i) = selectors fe
        \<and> placeholder (fixedElements s3 ! i) = Some p
        \<and> inlineStyle s3 el ''zIndex'' = transferZIndex i (st_zIndex m)"
proof -
  let ?d = "document s"
  let ?d1 = "replaceSub el (Node p []) ?d"
  let ?d2 = "appendSub l sub ?d1"
  let ?z = "transferZIndex i (st_zIndex m)"
  obtain q s1 where ep: "ensurePlaceholder i s = (q, s1)" by (cases "ensurePlaceholder i s")
  note f = ensurePlaceholder_facts[OF i ep]
  have qp: "q = p" using f(1) by (simp add: p_def fe_def)
  define s2 where "s2 = setStyle el ''zIndex'' ?z s1"
  have s2: "document s2 = ?d" "fixedLayer s2 = Some l" "fixedElements s2 = fixedElements s1"
    "inlineStyle s2 el ''zIndex'' = ?z"
    using f(2,3) layer(1) by (simp_all add: s2_def setStyle_def)
  have nsub: "nid sub = el" using subtree_Some(1)[OF sub] by simp
  have el_in: "el \<in> set (ids ?d)" using sub subtree_None(1)[of el ?d] by auto
  have el_p: "p \<noteq> el" using el_in ph by auto
  have root: "nid ?d \<noteq> el" using parent_neq_root[OF d par] by simp
  have par_in: "par \<in> set (ids ?d)" using parent_in(1)[OF par] by simp
  have par_p: "par \<noteq> p" using par_in ph by auto
  have tp: "takeNode p ?d = (Node p [], ?d)"
    using ph subtree_None(1)[of p ?d] by (simp add: takeNode_def)
  have te: "fst (takeNode el ?d) = sub" using sub by (simp add: takeNode_def)
  have rc: "replaceChild par p el ?d = Inr (?d1, sub)"
    using el_p tp te par_p by (simp add: replaceChild_def)
  have el_gone: "el \<notin> set (ids ?d1)" using replaced_gone[of el "Node p []" ?d] el_p root by simp
  have ac: "appendChild l sub ?d1 = Inr ?d2"
    using layer(3) el_gone nsub by (simp add: appendChild_def removeSub_notin)
  define s3 where "s3 = s2\<lparr>document := ?d2\<rparr>"
  have al: "appendToLayer sub (s2\<lparr>document := ?d1\<rparr>) = Ok s3"
    using s2(2) ac by (simp add: appendToLayer_def getFixedLayer_def s3_def)
  have s3: "document s3 = ?d2" "fixedElements s3 = fixedElements s1"
    "inlineStyle s3 el ''zIndex'' = ?z"
    using s2 by (simp_all add: s3_def)
  have fe3: "element (fixedElements s3 ! i) = el" "selectors (fixedElements s3 ! i) = selectors fe"
    "placeholder (fixedElements s3 ! i) = Some p"
    using f(5,6,7) s3(2) qp by (simp_all add: el_def fe_def)
  have "transferToFixedLayer env i m s = rematch env i s3"
    using par layer(1,4) ep qp f(2) rc al[unfolded s2_def]
    by (simp add: transferToFixedLayer_def Let_def el_def[symmetric] fe_def[symmetric])
  then show ?thesis using s3(1,3) fe3 by blast
qed

text \<open>The document after the move, and what the way back needs of it.\<close>

lemma moved_document:
  assumes d: "distinct (ids d0)"
    and par: "parentElement el d0 = Some par"
    and sub: "subtreeAt el d0 = Some sub"
    and layer: "l \<in> set (ids d0)" "l \<notin> set (ids sub)"
    and ph: "p \<notin> set (ids d0)"
  shows "contains (appendSub l sub (replaceSub el (Node p []) d0)) p"
    and "contains (appendSub l sub (replaceSub el (Node p []) d0)) el"
    and "parentElement p (appendSub l sub (replaceSub el (Node p []) d0)) = Some par"
    and "parentElement el (appendSub l sub (replaceSub el (Node p []) d0)) = Some l"
    and "replaceChild par el p (appendSub l sub (replaceSub el (Node p []) d0))
         = Inr (d0, fst (takeNode p (replaceSub el (Node p []) d0)))"
proof -
  let ?d1 = "replaceSub el (Node p []) d0"
  let ?d2 = "appendSub l sub ?d1"
  have nsub: "nid sub = el" and subd: "set (ids sub) \<subseteq> set (ids d0)"
    using subtree_Some(1)[OF sub] by simp_all
  have el_in: "el \<in> set (ids d0)" using sub subtree_None(1)[of el d0] by auto
  have el_p: "p \<noteq> el" using el_in ph by auto
  have root: "nid d0 \<noteq> el" using parent_neq_root[OF d par] by simp
  have el_gone: "el \<notin> set (ids ?d1)" using replaced_gone[of el "Node p []" d0] el_p root by simp
  have p_in1: "p \<in> set (ids ?d1)" using replaced_has[OF el_in root, of "Node p []"] by simp
  have l_in1: "l \<in> set (ids ?d1)" using replaced_keep[OF d sub layer] .
  have ids2: "set (ids ?d2) = set (ids ?d1) \<union> set (ids sub)" using ids_appendSub[OF l_in1] .
  show "contains ?d2 p" using ids2 p_in1 by (simp add: contains_def)
  show "contains ?d2 el" using ids2 nsub nid_in_ids[of sub] by (auto simp: contains_def)
  have p_sub: "p \<notin> set (ids sub)" using subd ph by auto
  show "parentElement p ?d2 = Some par"
    using parent_appendSub[OF p_sub, of l ?d1] parent_replaced[OF d ph, of el] par by simp
  show "parentElement el ?d2 = Some l"
    using parent_appended[OF l_in1, of sub] el_gone nsub by simp
  have st: "subtreeAt el ?d2 = Some sub"
    using subtree_appended[OF l_in1, of sub] el_gone nsub by simp
  have par_sub: "par \<notin> set (ids sub)" using parent_outside_subtree[OF d par sub] .
  have rem: "removeSub el ?d2 = ?d1" using remove_appended[of sub ?d1 l] el_gone nsub by simp
  have bk: "replaceSub p sub ?d1 = d0" using replace_back[OF d ph, of el sub] sub by simp
  show "replaceChild par el p ?d2 = Inr (d0, fst (takeNode p ?d1))"
    using el_p st par_sub rem bk by (simp add: replaceChild_def takeNode_def)
qed

section \<open>Facts about the registry\<close>

lemma pushSelector_None: "(pushSelector e sel fes = None) = (e \<notin> set (map element fes))"
  by (induction fes) auto

lemma pushSelector_Some:
  "pushSelector e sel fes = Some fes' \<Longrightarrow>
     map element fes' = map element fes \<and> map fe_id fes' = map fe_id fes
     \<and> (\<exists>fe\<in>set fes'. element fe = e \<and> sel \<in> set (selectors fe))"
  by (induction fes arbitrary: fes') (auto split: if_splits)

lemma setupFixedElement_new:
  "e \<notin> set (map element (fixedElements s)) \<Longrightarrow>
   fixedElements (setupFixedElement e sel s)
     = fixedElements s @ [\<lparr>fe_id = ''F'' @ showNat (counter s), element = e, selectors = [sel],
                           placeholder = None, fixedNow = None\<rparr>]"
  using pushSelector_None[of e sel "fixedElements s"]
  by (simp add: setupFixedElement_def Let_def)

lemma setupFixedElement_tracks:
  "\<exists>fe\<in>set (fixedElements (setupFixedElement e sel s)). element fe = e \<and> sel \<in> set (selectors fe)"
proof (cases "pushSelector e sel (fixedElements s)")
  case None
  then show ?thesis by (simp add: setupFixedElement_def Let_def)
next
  case (Some fes')
  then show ?thesis using pushSelector_Some[OF Some] by (simp add: setupFixedElement_def)
qed

lemma setupFixedElement_document [simp]:
  "document (setupFixedElement e sel s) = document s"
  by (simp add: setupFixedElement_def Let_def split: option.splits)

lemma registerMatches_take:
  "registerMatches i els sel s = foldl (\<lambda>s' e. setupFixedElement e sel s') s (take (11 - i) els)"
proof (induction els arbitrary: i s)
  case Nil
  show ?case by simp
next
  case (Cons e es)
  show ?case
  proof (cases "i > 10")
    case True
    then show ?thesis by simp
  next
    case False
    then obtain k where k: "11 - i = Suc k" "11 - (i + 1) = k"
      by (cases "11 - i") auto
    have "registerMatches i (e # es) sel s
          = registerMatches (i + 1) es sel (setupFixedElement e sel s)"
      using False by simp
    also have "\<dots> = foldl (\<lambda>s' e. setupFixedElement e sel s') (setupFixedElement e sel s) (take k es)"
      using Cons.IH[of "i + 1" "setupFixedElement e sel s"] k(2) by (simp only:)
    also have "\<dots> = foldl (\<lambda>s' e. setupFixedElement e sel s') s (take (Suc k) (e # es))"
      by simp
    finally show ?thesis using k(1) by (simp only:)
  qed
qed

lemma register_new_elements:
  "distinct es \<Longrightarrow> \<forall>e\<in>set es. e \<notin> set (map element (fixedElements s)) \<Longrightarrow>
   map element (fixedElements (foldl (\<lambda>s' e. setupFixedElement e sel s') s es))
     = map element (fixedElements s) @ es"
proof (induction es arbitrary: s)
  case Nil
  show ?case by simp
next
  case (Cons e es)
  have new: "e \<notin> set (map element (fixedElements s))" using Cons.prems(2) by simp
  have a: "map element (fixedElements (setupFixedElement e sel s))
           = map element (fixedElements s) @ [e]"
    using setupFixedElement_new[OF new, of sel] by simp
  have "\<forall>x\<in>set es. x \<notin> set (map element (fixedElements (setupFixedElement e sel s)))"
    using Cons.prems a by auto
  then show ?case using Cons.IH[of "setupFixedElement e sel s"] Cons.prems(1) a by simp
qed

text \<open>An entry whose element is in the document survives the pruning and the cycle.\<close>

lemma spliceElement_keeps:
  "e \<noteq> e' \<Longrightarrow> e \<in> set (map element fes) \<Longrightarrow> e \<in> set (map element (spliceElement e' fes))"
  by (induction fes) auto

lemma prune_foldl_keeps:
  "e \<in> set (map element (fixedElements s)) \<Longrightarrow> \<forall>r\<in>set rs. element r \<noteq> e
   \<Longrightarrow> e \<in> set (map element (fixedElements (foldl (\<lambda>s' fe. removeFixedElement (element fe) s') s rs)))"
proof (induction rs arbitrary: s)
  case Nil
  then show ?case by simp
next
  case (Cons r rs)
  have "e \<in> set (map element (fixedElements (removeFixedElement (element r) s)))"
    using Cons.prems spliceElement_keeps[of e "element r" "fixedElements s"]
    by (simp add: removeFixedElement_def)
  then show ?case using Cons.IH[of "removeFixedElement (element r) s"] Cons.prems(2) by simp
qed

lemma pruneDetached_keeps:
  "e \<in> set (map element (fixedElements s)) \<Longrightarrow> contains (document s) e
   \<Longrightarrow> e \<in> set (map element (fixedElements (pruneDetached s)))"
  unfolding pruneDetached_def by (rule prune_foldl_keeps) auto

lemma syncLayerClass_fixedElements:
  "fixedElements (stateOf (syncLayerClass s)) = fixedElements s"
  by (auto simp: syncLayerClass_def getFixedLayer_def createElement_def Let_def
        split: prod.splits option.splits)

lemma runCycle_elements:
  "map element (fixedElements (stateOf (runCycle env s))) = map element (fixedElements s)"
proof -
  obtain st hasT where mp: "measurePhase env (fixedElements s) = (st, hasT)"
    by (cases "measurePhase env (fixedElements s)")
  show ?thesis
  proof (cases "if hasT \<and> transfer s then syncLayerClass s else Ok s")
    case (Throw e s1)
    then have "fixedElements s1 = fixedElements s"
      using syncLayerClass_fixedElements[of s] by (auto split: if_splits)
    then show ?thesis using mp Throw by (simp add: runCycle_def mutatePhase_def)
  next
    case (Ok s1)
    then have a: "fixedElements s1 = fixedElements s"
      using syncLayerClass_fixedElements[of s] by (auto split: if_splits)
    have "sameShape s1 (stateOf (mutateEach env st [0..<length (fixedElements s1)] s1))"
      by (rule frame_mutateEach)
    then show ?thesis using mp Ok a by (simp add: runCycle_def mutatePhase_def sameShape_def)
  qed
qed

lemma update_elements:
  "map element (fixedElements (update env s)) = map element (fixedElements (pruneDetached s))"
proof (cases "fixedElements s = []")
  case True
  then show ?thesis by (simp add: update_def pruneDetached_def)
next
  case False
  show ?thesis
    using False runCycle_elements[of env "pruneDetached s"]
    by (cases "runCycle env (pruneDetached s)") (simp_all add: update_def)
qed

lemma addElement_tracks:
  assumes "contains (document s) e" and "\<forall>c xs. set (arraySort env c xs) = set xs"
  shows "e \<in> set (map element (fixedElements (addElement env e s)))"
proof -
  let ?s1 = "setupFixedElement e ''*'' s"
  let ?s2 = "sortInDomOrder env ?s1"
  have "e \<in> set (map element (fixedElements ?s1))"
    using setupFixedElement_tracks[of e "''*''" s] by force
  then have "e \<in> set (map element (fixedElements ?s2))"
    using assms(2) by (simp add: sortInDomOrder_def)
  moreover have "contains (document ?s2) e" using assms(1) by (simp add: sortInDomOrder_def)
  ultimately have "e \<in> set (map element (fixedElements (pruneDetached ?s2)))"
    by (rule pruneDetached_keeps)
  then show ?thesis by (simp add: addElement_def update_elements)
qed

lemma someMatches_some:
  "sel \<in> set sels \<Longrightarrow> matcher env el = Some mt \<Longrightarrow> \<forall>d. mt d sel = Inr True
   \<Longrightarrow> fst (someMatches env el sels s) = True"
proof (induction sels arbitrary: s)
  case Nil
  then show ?case by simp
next
  case (Cons x xs)
  obtain b s' where ms: "matches env el x s = (b, s')" by (cases "matches env el x s")
  show ?case
  proof (cases b)
    case True
    then show ?thesis using ms by simp
  next
    case False
    then have "x \<noteq> sel" using ms Cons.prems(2,3) by (auto simp: matches_def)
    then have "sel \<in> set xs" using Cons.prems(1) by simp
    then show ?thesis using ms False Cons.IH[of s'] Cons.prems(2,3) by simp
  qed
qed

lemma rematch_matched:
  "fst (someMatches env (element (fixedElements s ! i)) (selectors (fixedElements s ! i)) s)
   \<Longrightarrow> rematch env i s
       = Ok (snd (someMatches env (element (fixedElements s ! i)) (selectors (fixedElements s ! i)) s))"
  by (cases "someMatches env (element (fixedElements s ! i)) (selectors (fixedElements s ! i)) s")
     (simp add: rematch_def Let_def)

section \<open>Unfolding the engine on a concrete page\<close>

lemmas engine_defs =
  addElement_def removeElement_def updatePaddingTop_def setupLayer_def update_def runCycle_def
  setupFixedElement_def removeFixedElement_def elementAsDef_def sortInDomOrder_def
  domOrderComparator_def compareDocumentPosition_def isAncestor_def contains_def
  insertionSort_def pruneDetached_def measurePhase_def measureStep_def measureElement_def
  isAllowedCoord_def parseInt_def isSpace_def isDigit_def mutatePhase_def syncLayerClass_def
  getFixedLayer_def createElement_def setStyles_def fixedLayerStyles_def setStyle_def
  setAttribute_def mutateFixedElement_def setFe_def paddedTop_def showInt_def
  transferToFixedLayer_def ensurePlaceholder_def transferZIndex_def replaceChild_def
  appendChild_def takeNode_def appendToLayer_def rematch_def matches_def
  returnFromFixedLayer_def report_def skipped_def showNat.simps Let_def

lemmas demo_defs =
  demoPage_def demoHost_def fixedStyle_def staticStyle_def oneFixedHost_def noneFixedHost_def
  rootFixedHost_def stackedHost_def halfPixelHost_def wideHost_def rootAndBarSheets_def
  barSheets_def namespaceSheets_def authorSheet_def widePage_def
  twoEntries_def childOfBodyHost_def

section \<open>Entries and transfers\<close>

text \<open>The insertion sort of the demo hosts keeps the elements of the list.\<close>


lemma insertFromRight_set: "set (insertFromRight c x ys) = insert x (set ys)"
  by (induction ys) auto

lemma insertionSort_foldl_set:
  "set (foldl (\<lambda>acc x. insertFromRight c x acc) acc xs) = set acc \<union> set xs"
  by (induction xs arbitrary: acc) (auto simp: insertFromRight_set)

lemma insertionSort_set: "set (insertionSort c xs) = set xs"
  by (simp add: insertionSort_def insertionSort_foldl_set)

lemma spliceElement_keeps_entry:
  "element fe \<noteq> e' \<Longrightarrow> fe \<in> set fes \<Longrightarrow> fe \<in> set (spliceElement e' fes)"
  by (induction fes) auto

lemma prune_foldl_keeps_entry:
  "fe \<in> set (fixedElements s) \<Longrightarrow> \<forall>r\<in>set rs. element r \<noteq> element fe
   \<Longrightarrow> fe \<in> set (fixedElements (foldl (\<lambda>s' r. removeFixedElement (element r) s') s rs))"
proof (induction rs arbitrary: s)
  case Nil
  then show ?case by simp
next
  case (Cons r rs)
  have "fe \<in> set (fixedElements (removeFixedElement (element r) s))"
    using Cons.prems spliceElement_keeps_entry[of fe "element r" "fixedElements s"]
    by (simp add: removeFixedElement_def)
  then show ?case using Cons.IH[of "removeFixedElement (element r) s"] Cons.prems(2) by simp
qed

lemma pruneDetached_keeps_entry:
  "fe \<in> set (fixedElements s) \<Longrightarrow> contains (document s) (element fe)
   \<Longrightarrow> fe \<in> set (fixedElements (pruneDetached s))"
  unfolding pruneDetached_def by (rule prune_foldl_keeps_entry) auto

lemma triggers_zip:
  "map (\<lambda>fe. (element fe, selectors fe)) fes = zip (map element fes) (map selectors fes)"
  by (induction fes) simp_all

lemma runCycle_triggers:
  "map (\<lambda>fe. (element fe, selectors fe)) (fixedElements (stateOf (runCycle env s)))
   = map (\<lambda>fe. (element fe, selectors fe)) (fixedElements s)"
proof -
  obtain st hasT where mp: "measurePhase env (fixedElements s) = (st, hasT)"
    by (cases "measurePhase env (fixedElements s)")
  have "map element (fixedElements (stateOf (runCycle env s))) = map element (fixedElements s)
        \<and> map selectors (fixedElements (stateOf (runCycle env s))) = map selectors (fixedElements s)"
  proof (cases "if hasT \<and> transfer s then syncLayerClass s else Ok s")
    case (Throw e s1)
    then have "fixedElements s1 = fixedElements s"
      using syncLayerClass_fixedElements[of s] by (auto split: if_splits)
    then show ?thesis using mp Throw by (simp add: runCycle_def mutatePhase_def)
  next
    case (Ok s1)
    then have a: "fixedElements s1 = fixedElements s"
      using syncLayerClass_fixedElements[of s] by (auto split: if_splits)
    have "sameShape s1 (stateOf (mutateEach env st [0..<length (fixedElements s1)] s1))"
      by (rule frame_mutateEach)
    then show ?thesis using mp Ok a by (simp add: runCycle_def mutatePhase_def sameShape_def)
  qed
  then show ?thesis by (simp add: triggers_zip)
qed

lemma update_triggers:
  "map (\<lambda>fe. (element fe, selectors fe)) (fixedElements (update env s))
   = map (\<lambda>fe. (element fe, selectors fe)) (fixedElements (pruneDetached s))"
proof (cases "fixedElements s = []")
  case True
  then show ?thesis by (simp add: update_def pruneDetached_def)
next
  case False
  show ?thesis
    using False runCycle_triggers[of env "pruneDetached s"]
    by (cases "runCycle env (pruneDetached s)") (simp_all add: update_def)
qed

text \<open>
  The entry that \<^verbatim>\<open>setupFixedElement_\<close> makes or extends for an element of the document
  is in the registry after \<^verbatim>\<open>addElement\<close>, with the element and the selectors it had
  after the registration.
\<close>

lemma addElement_entry:
  assumes "contains (document s) e" and "\<forall>c xs. set (arraySort env c xs) = set xs"
    and "fe \<in> set (fixedElements (setupFixedElement e ''*'' s))" and "element fe = e"
  shows "\<exists>fe'\<in>set (fixedElements (addElement env e s)).
           element fe' = e \<and> selectors fe' = selectors fe"
proof -
  let ?s2 = "sortInDomOrder env (setupFixedElement e ''*'' s)"
  have "fe \<in> set (fixedElements ?s2)" using assms(2,3) by (simp add: sortInDomOrder_def)
  moreover have "contains (document ?s2) (element fe)"
    using assms(1,4) by (simp add: sortInDomOrder_def)
  ultimately have "fe \<in> set (fixedElements (pruneDetached ?s2))"
    by (rule pruneDetached_keeps_entry)
  then have "(e, selectors fe)
      \<in> set (map (\<lambda>fe. (element fe, selectors fe)) (fixedElements (pruneDetached ?s2)))"
    using assms(4) by force
  then have "(e, selectors fe)
      \<in> set (map (\<lambda>fe. (element fe, selectors fe)) (fixedElements (addElement env e s)))"
    by (simp only: addElement_def update_triggers)
  then show ?thesis by auto
qed

text \<open>
  A transfer whose re-match finds a matching selector: the call returns with the element
  below the layer, the placeholder in its old place and the z-index of the transfer.
\<close>

lemma transfer_kept:
  fixes s :: fixedLayerState and i :: nat and l :: nat and sub :: node
  defines "fe \<equiv> fixedElements s ! i"
  defines "el \<equiv> element fe"
  defines "p \<equiv> (case placeholder fe of Some q \<Rightarrow> q | None \<Rightarrow> nextNode s)"
  defines "moved \<equiv> appendSub l sub (replaceSub el (Node p []) (document s))"
  assumes i: "i < length (fixedElements s)"
    and d: "distinct (ids (document s))"
    and par: "parentElement el (document s) = Some par"
    and sub: "subtreeAt el (document s) = Some sub"
    and layer: "fixedLayer s = Some l" "l \<in> set (ids (document s))" "l \<notin> set (ids sub)" "par \<noteq> l"
    and ph: "p \<notin> set (ids (document s))"
    and mt: "matcher env el = Some mt" "sel \<in> set (selectors fe)" "mt moved sel = Inr True"
  shows "\<exists>s'. transferToFixedLayer env i m s = Ok s'
              \<and> document s' = moved
              \<and> parentElement el (document s') = Some l
              \<and> parentElement p (document s') = Some par
              \<and> inlineStyle s' el ''zIndex'' = transferZIndex i (st_zIndex m)"
proof -
  obtain s3 where t: "transferToFixedLayer env i m s = rematch env i s3"
    and s3: "document s3 = moved" "element (fixedElements s3 ! i) = el"
      "selectors (fixedElements s3 ! i) = selectors fe"
      "placeholder (fixedElements s3 ! i) = Some p"
      "inlineStyle s3 el ''zIndex'' = transferZIndex i (st_zIndex m)"
    using transfer_reaches_rematch[OF i d par[unfolded el_def fe_def] sub[unfolded el_def fe_def]
        layer ph[unfolded p_def fe_def], of env m]
    unfolding moved_def p_def el_def fe_def by blast
  note mv = moved_document[OF d par sub layer(2,3) ph, folded moved_def]
  obtain b s4 where sm: "someMatches env el (selectors fe) s3 = (b, s4)"
    by (cases "someMatches env el (selectors fe) s3")
  have s4: "document s4 = moved" "inlineStyle s4 el ''zIndex'' = transferZIndex i (st_zIndex m)"
    using someMatches_proj(1,3)[of env el "selectors fe" s3] sm s3(1,5) by simp_all
  have "fst (someMatches env el (selectors fe) s3) = True"
    using someMatches_exists[OF mt(1,2), of s3] mt(3) s3(1) by simp
  then have "b" using sm by simp
  then have "transferToFixedLayer env i m s = Ok s4"
    using t sm s3(2,3) by (simp add: rematch_def Let_def)
  then show ?thesis using s4 mv(3,4) by auto
qed

text \<open>
  The comparator of the sort answers \<open>- 1\<close> for any two elements of the document, in
  either order: the mask it applies keeps the bit \<^verbatim>\<open>disconnected\<close> alone.
\<close>

lemma domOrderComparator_connected:
  "contains d (element fe1) \<Longrightarrow> contains d (element fe2) \<Longrightarrow> domOrderComparator d fe1 fe2 = - 1"
  by (simp add: domOrderComparator_def compareDocumentPosition_def)

lemma domOrderComparator_disconnected:
  "element fe1 \<noteq> element fe2 \<Longrightarrow> \<not> contains d (element fe1) \<or> \<not> contains d (element fe2)
   \<Longrightarrow> domOrderComparator d fe1 fe2 = 1"
  by (auto simp: domOrderComparator_def compareDocumentPosition_def)

lemma addedPage_fields:
  "fixedElements addedPage ! 0
     = \<lparr>fe_id = ''F0'', element = 2, selectors = [''*''],
        placeholder = None, fixedNow = None\<rparr>"
  "length (fixedElements addedPage) = 1"
  "document addedPage = Node 0 [Node 1 [Node 2 [], Node 3 []], Node 4 []]"
  "fixedLayer addedPage = Some 4" "nextNode addedPage = 5"
  by (simp_all add: addedPage_def layeredPage_def demoPage_def)

section \<open>The measure phase computes the flags\<close>

lemma measureStep_lookup:
  "fst (measureStep env a x) k = (if k = fe_id x then Some (measureElement env x) else fst a k)"
  by (simp add: measureStep_def Let_def)

lemma measure_foldl_lookup:
  "distinct (map fe_id fes) \<Longrightarrow> fe \<in> set fes
   \<Longrightarrow> fst (foldl (measureStep env) acc fes) (fe_id fe) = Some (measureElement env fe)"
proof (induction fes arbitrary: fe rule: rev_induct)
  case Nil
  then show ?case by simp
next
  case (snoc x xs)
  show ?case
  proof (cases "fe = x")
    case True
    then show ?thesis by (simp add: measureStep_lookup)
  next
    case False
    then have fin: "fe \<in> set xs" using snoc.prems(2) by simp
    then have "fe_id fe \<in> fe_id ` set xs" by (rule imageI)
    then have "fe_id fe \<noteq> fe_id x" using snoc.prems(1) by auto
    moreover have "fst (foldl (measureStep env) acc xs) (fe_id fe) = Some (measureElement env fe)"
      using snoc.IH[OF _ fin] snoc.prems(1) by simp
    ultimately show ?thesis by (simp add: measureStep_lookup)
  qed
qed

text \<open>
  The measure phase stores, under the id of each entry of a registry with distinct ids,
  the flags that \<open>measureElement\<close> computes for it.
\<close>

lemma measurePhase_stores:
  "distinct (map fe_id fes) \<Longrightarrow> fe \<in> set fes
   \<Longrightarrow> fst (measurePhase env fes) (fe_id fe) = Some (measureElement env fe)"
  unfolding measurePhase_def by (rule measure_foldl_lookup)

text \<open>
  What \<^verbatim>\<open>parseInt\<close> reads: the leading integer, whatever follows it.
\<close>

lemma parseInt_values:
  "parseInt ''0px'' = Some 0" "parseInt ''0'' = Some 0" "parseInt ''-0px'' = Some 0"
  "parseInt ''0.5px'' = Some 0" "parseInt ''0.9em'' = Some 0"
  "parseInt ''10px'' = Some 10" "parseInt ''1px'' = Some 1" "parseInt ''-3px'' = Some (- 3)"
  "parseInt ''105px'' = Some 105" "parseInt ''auto'' = None" "parseInt '''' = None"
  "parseInt ''.5px'' = None"
  by (simp_all add: parseInt_def isSpace_def isDigit_def Let_def)

text \<open>
  C5 at a concrete input. The element 2 of the small page is fixed, visible, 320 by 50
  pixels, with the computed top \<^verbatim>\<open>0.5px\<close> and the computed bottom \<^verbatim>\<open>auto\<close>:
  an offset that is not zero. \<^verbatim>\<open>parseInt\<close> reads the leading \<^verbatim>\<open>0\<close> of the top
  and stops at the point, so the coordinate is allowed and the measure phase stores
  \<open>transferrable = True\<close> for the element. (The element 3, fixed with the top
  \<^verbatim>\<open>10px\<close>, is measured fixed and not transferrable, and a top of \<^verbatim>\<open>auto\<close> is not
  allowed either.)
\<close>

theorem fractional_offset_is_transferrable:
  "parseInt ''0.5px'' = Some 0
   \<and> isAllowedCoord ''0.5px''
   \<and> measureElement halfPixelHost (twoEntries ! 0)
       = \<lparr>fixed = True, transferrable = True, st_top = ''0.5px'', st_zIndex = ''0''\<rparr>
   \<and> fst (measurePhase halfPixelHost twoEntries) ''F0''
       = Some \<lparr>fixed = True, transferrable = True, st_top = ''0.5px'', st_zIndex = ''0''\<rparr>
   \<and> snd (measurePhase halfPixelHost twoEntries)
   \<and> parseInt ''10px'' = Some 10
   \<and> \<not> isAllowedCoord ''10px''
   \<and> \<not> isAllowedCoord ''auto''
   \<and> \<not> isAllowedCoord ''''
   \<and> fst (measurePhase halfPixelHost twoEntries) ''F1''
       = Some \<lparr>fixed = True, transferrable = False, st_top = ''10px'', st_zIndex = ''0''\<rparr>"
  by (simp add: measurePhase_def measureStep_def measureElement_def isAllowedCoord_def
        parseInt_def isSpace_def isDigit_def Let_def demo_defs)

section \<open>The re-match after a transfer\<close>

text \<open>
  C8. Let the entry \<open>i\<close> of the registry hold an element \<open>el\<close> that sits below \<open>par\<close> in
  a document with distinct nodes, outside the layer \<open>l\<close> (which exists by then: the cycle
  creates it before it mutates any element), and let its placeholder \<open>p\<close> (the one it
  has, or the node about to be created) be outside the document. The transfer puts the
  placeholder in the element's place and the element below the layer, and then asks the
  matcher about the triggering selectors of the entry in that new document.

  If none of them matches there (the matcher is absent, answers no, or throws), the call
  returns with the document as it was before: the element is back below \<open>par\<close> in the
  place of its placeholder, the placeholder is out of the document, and the z-index of
  the element is cleared.

  If one of them matches there, wherever it stands among the selectors, the call returns
  with the element below the layer, its placeholder in its old place, and the z-index of
  the transfer.
\<close>

theorem transfer_then_rematch:
  fixes s :: fixedLayerState and i :: nat and l :: nat and sub :: node
  defines "fe \<equiv> fixedElements s ! i"
  defines "el \<equiv> element fe"
  defines "p \<equiv> (case placeholder fe of Some q \<Rightarrow> q | None \<Rightarrow> nextNode s)"
  defines "moved \<equiv> appendSub l sub (replaceSub el (Node p []) (document s))"
  assumes i: "i < length (fixedElements s)"
    and d: "distinct (ids (document s))"
    and par: "parentElement el (document s) = Some par"
    and sub: "subtreeAt el (document s) = Some sub"
    and layer: "fixedLayer s = Some l" "l \<in> set (ids (document s))" "l \<notin> set (ids sub)" "par \<noteq> l"
    and ph: "p \<notin> set (ids (document s))"
  shows "((\<forall>sel\<in>set (selectors fe). \<forall>mt. matcher env el = Some mt \<longrightarrow> mt moved sel \<noteq> Inr True)
          \<longrightarrow> (\<exists>s'. transferToFixedLayer env i m s = Ok s'
                   \<and> document s' = document s
                   \<and> parentElement el (document s') = Some par
                   \<and> \<not> contains (document s') p
                   \<and> inlineStyle s' el ''zIndex'' = []))
       \<and> ((\<exists>sel\<in>set (selectors fe). \<exists>mt. matcher env el = Some mt \<and> mt moved sel = Inr True)
          \<longrightarrow> (\<exists>s'. transferToFixedLayer env i m s = Ok s'
                   \<and> document s' = moved
                   \<and> parentElement el (document s') = Some l
                   \<and> parentElement p (document s') = Some par
                   \<and> inlineStyle s' el ''zIndex'' = transferZIndex i (st_zIndex m)))"
proof -
  obtain s3 where t: "transferToFixedLayer env i m s = rematch env i s3"
    and s3: "document s3 = moved" "element (fixedElements s3 ! i) = el"
      "selectors (fixedElements s3 ! i) = selectors fe"
      "placeholder (fixedElements s3 ! i) = Some p"
      "inlineStyle s3 el ''zIndex'' = transferZIndex i (st_zIndex m)"
    using transfer_reaches_rematch[OF i d par[unfolded el_def fe_def] sub[unfolded el_def fe_def]
        layer ph[unfolded p_def fe_def], of env m]
    unfolding moved_def p_def el_def fe_def by blast
  note mv = moved_document[OF d par sub layer(2,3) ph, folded moved_def]
  obtain b s4 where sm: "someMatches env el (selectors fe) s3 = (b, s4)"
    by (cases "someMatches env el (selectors fe) s3")
  have s4: "document s4 = moved" "inlineStyle s4 el ''zIndex'' = transferZIndex i (st_zIndex m)"
    using someMatches_proj(1,3)[of env el "selectors fe" s3] sm s3(1,5) by simp_all
  have rm: "rematch env i s3 = (if \<not> b then returnFromFixedLayer (fixedElements s3 ! i) s4 else Ok s4)"
    using sm s3(2,3) by (simp add: rematch_def Let_def)
  have reversed: "\<exists>s'. transferToFixedLayer env i m s = Ok s'
                   \<and> document s' = document s
                   \<and> parentElement el (document s') = Some par
                   \<and> \<not> contains (document s') p
                   \<and> inlineStyle s' el ''zIndex'' = []"
    if none: "\<forall>sel\<in>set (selectors fe). \<forall>mt. matcher env el = Some mt \<longrightarrow> mt moved sel \<noteq> Inr True"
  proof -
    have "fst (someMatches env el (selectors fe) s3) = False"
      using none s3(1) by (intro someMatches_none) auto
    then have nb: "\<not> b" using sm by simp
    define s5 where "s5 = (setStyle el ''zIndex'' [] s4)\<lparr>document := document s\<rparr>"
    have "returnFromFixedLayer (fixedElements s3 ! i) s4 = Ok s5"
      using s3(2,4) s4 mv(1,2,3,5) transferZIndex_nonempty[of i "st_zIndex m"]
      by (simp add: returnFromFixedLayer_def Let_def s5_def)
    then have "transferToFixedLayer env i m s = Ok s5" using t rm nb by simp
    moreover have "document s5 = document s" "inlineStyle s5 el ''zIndex'' = []"
      by (simp_all add: s5_def setStyle_def)
    moreover have "\<not> contains (document s) p" using ph by (simp add: contains_def)
    ultimately show ?thesis using par by auto
  qed
  have kept: "\<exists>s'. transferToFixedLayer env i m s = Ok s'
                   \<and> document s' = moved
                   \<and> parentElement el (document s') = Some l
                   \<and> parentElement p (document s') = Some par
                   \<and> inlineStyle s' el ''zIndex'' = transferZIndex i (st_zIndex m)"
    if some: "\<exists>sel\<in>set (selectors fe). \<exists>mt. matcher env el = Some mt \<and> mt moved sel = Inr True"
  proof -
    obtain sel mt where "sel \<in> set (selectors fe)" "matcher env el = Some mt"
      "mt (document s3) sel = Inr True"
      using some s3(1) by auto
    then have "fst (someMatches env el (selectors fe) s3) = True"
      using someMatches_exists[of env el mt sel "selectors fe" s3] by simp
    then have "b" using sm by simp
    then have "transferToFixedLayer env i m s = Ok s4" using t rm by simp
    then show ?thesis using s4 mv(3,4) by auto
  qed
  show ?thesis using reversed kept by blast
qed

lemma layeredPage_fields:
  "fixedElements layeredPage ! 0
     = \<lparr>fe_id = ''F0'', element = 2, selectors = [''body > .bar''],
        placeholder = None, fixedNow = None\<rparr>"
  "length (fixedElements layeredPage) = 1"
  "document layeredPage = Node 0 [Node 1 [Node 2 [], Node 3 []], Node 4 []]"
  "fixedLayer layeredPage = Some 4" "nextNode layeredPage = 5"
  by (simp_all add: layeredPage_def demoPage_def)

theorem transfer_then_rematch_witness:
  "distinct (ids (document layeredPage))
   \<and> parentElement 2 (document layeredPage) = Some 1
   \<and> subtreeAt 2 (document layeredPage) = Some (Node 2 [])
   \<and> fixedLayer layeredPage = Some 4
   \<and> nextNode layeredPage \<notin> set (ids (document layeredPage))
   \<and> (\<exists>s'. transferToFixedLayer (childOfBodyHost (\<lambda>n. fixedStyle ''0px'' ''0'')) 0
               \<lparr>fixed = True, transferrable = True, st_top = ''0px'', st_zIndex = ''0''\<rparr>
               layeredPage = Ok s'
           \<and> document s' = Node 0 [Node 1 [Node 2 [], Node 3 []], Node 4 []]
           \<and> inlineStyle s' 2 ''zIndex'' = [])
   \<and> (\<exists>s'. transferToFixedLayer oneFixedHost 0
               \<lparr>fixed = True, transferrable = True, st_top = ''0px'', st_zIndex = ''0''\<rparr>
               layeredPage = Ok s'
           \<and> document s' = Node 0 [Node 1 [Node 5 [], Node 3 []], Node 4 [Node 2 []]]
           \<and> inlineStyle s' 2 ''zIndex'' = ''calc(10000 + 0)'')"
proof -
  let ?m = "\<lparr>fixed = True, transferrable = True, st_top = ''0px'', st_zIndex = ''0''\<rparr>"
  note lp = layeredPage_fields
  have h1: "0 < length (fixedElements layeredPage)" by (simp add: lp)
  have h2: "distinct (ids (document layeredPage))" by (simp add: lp)
  have h3: "parentElement (element (fixedElements layeredPage ! 0)) (document layeredPage) = Some 1"
    by (simp add: lp)
  have h4: "subtreeAt (element (fixedElements layeredPage ! 0)) (document layeredPage)
            = Some (Node 2 [])"
    by (simp add: lp)
  have h5: "fixedLayer layeredPage = Some 4" "4 \<in> set (ids (document layeredPage))"
    "4 \<notin> set (ids (Node 2 []))" "(1::nat) \<noteq> 4"
    by (simp_all add: lp)
  have h6: "(case placeholder (fixedElements layeredPage ! 0) of Some q \<Rightarrow> q
             | None \<Rightarrow> nextNode layeredPage) \<notin> set (ids (document layeredPage))"
    by (simp add: lp)
  note th = transfer_then_rematch[OF h1 h2 h3 h4 h5 h6, of _ ?m, simplified lp, simplified]
  have a: "\<exists>s'. transferToFixedLayer (childOfBodyHost (\<lambda>n. fixedStyle ''0px'' ''0'')) 0 ?m
               layeredPage = Ok s'
           \<and> document s' = Node 0 [Node 1 [Node 2 [], Node 3 []], Node 4 []]
           \<and> inlineStyle s' 2 ''zIndex'' = []"
    using th[of "childOfBodyHost (\<lambda>n. fixedStyle ''0px'' ''0'')"]
    by (auto simp: childOfBodyHost_def)
  have b: "\<exists>s'. transferToFixedLayer oneFixedHost 0 ?m layeredPage = Ok s'
           \<and> document s' = Node 0 [Node 1 [Node 5 [], Node 3 []], Node 4 [Node 2 []]]
           \<and> inlineStyle s' 2 ''zIndex'' = ''calc(10000 + 0)''"
    using th[of oneFixedHost]
    by (auto simp: oneFixedHost_def demoHost_def transferZIndex_def showNat.simps)
  show ?thesis using a b h2 by (simp add: lp)
qed

section \<open>The latch\<close>


lemma barRegistered_cycle:
  "runCycle oneFixedHost (pruneDetached barRegistered) = Ok (update oneFixedHost barRegistered)"
  "\<forall>fe\<in>set (fixedElements (update oneFixedHost barRegistered)).
      contains (document (update oneFixedHost barRegistered)) (element fe)"
  "fixedNow (fixedElements (update oneFixedHost barRegistered) ! 0) = Some True"
  "styleWrites (update oneFixedHost barRegistered) = 26"
  "map element (fixedElements (update oneFixedHost barRegistered)) = [2]"
  "contains (document (update oneFixedHost barRegistered)) 2"
  by (simp_all add: barRegistered_def engine_defs demo_defs)



section \<open>Removal and the reserved inset\<close>

text \<open>
  C1 at concrete inputs. The element 2 is added and transferred: the placeholder 5
  stands in its place and the element sits below the layer 4. \<^verbatim>\<open>removeElement\<close> then
  unregisters the element and leaves everything else as it is: the element stays below
  the layer and the placeholder stays in the document. And when instead the page takes
  the transferred element out of the document, the next cycle unregisters it and leaves
  the placeholder in the document as well.
\<close>

theorem removeElement_leaves_transfer:
  "document (addElement oneFixedHost 2 demoPage)
     = Node 0 [Node 1 [Node 5 [], Node 3 []], Node 4 [Node 2 []]]
   \<and> fixedLayer (addElement oneFixedHost 2 demoPage) = Some 4
   \<and> map element (fixedElements (addElement oneFixedHost 2 demoPage)) = [2]
   \<and> map placeholder (fixedElements (addElement oneFixedHost 2 demoPage)) = [Some 5]
   \<and> removeElement 2 (addElement oneFixedHost 2 demoPage)
       = Ok ((addElement oneFixedHost 2 demoPage)\<lparr>fixedElements := []\<rparr>)
   \<and> document (stateOf (removeElement 2 (addElement oneFixedHost 2 demoPage)))
       = Node 0 [Node 1 [Node 5 [], Node 3 []], Node 4 [Node 2 []]]
   \<and> document elementGonePage = Node 0 [Node 1 [Node 5 [], Node 3 []], Node 4 []]
   \<and> map element (fixedElements elementGonePage) = [2]
   \<and> fixedElements (update oneFixedHost elementGonePage) = []
   \<and> document (update oneFixedHost elementGonePage)
       = Node 0 [Node 1 [Node 5 [], Node 3 []], Node 4 []]"
  by (simp add: elementGonePage_def engine_defs demo_defs)

text \<open>
  C2 at a concrete input. The element 2 is added while the inset is 0 and gets the top
  \<^verbatim>\<open>calc(0px + 0px)\<close>. The inset then changes to 20; the element is measured fixed
  again, and its top stays as it was.
\<close>

theorem updatePaddingTop_keeps_old_top:
  "inlineStyle (addElement oneFixedHost 2 demoPage) 2 ''top'' = ''calc(0px + 0px)''
   \<and> paddingTop (updatePaddingTop oneFixedHost 20 (addElement oneFixedHost 2 demoPage)) = 20
   \<and> fixed (measureElement oneFixedHost
              (hd (fixedElements (updatePaddingTop oneFixedHost 20
                                    (addElement oneFixedHost 2 demoPage)))))
   \<and> inlineStyle (updatePaddingTop oneFixedHost 20 (addElement oneFixedHost 2 demoPage)) 2 ''top''
       = ''calc(0px + 0px)''
   \<and> paddedTop ''0px'' 20 = ''calc(0px + 20px)''"
  by (simp add: engine_defs demo_defs)

text \<open>
  C9 at a concrete input. The element 2 is added and transferred, removed, and added
  again when it is no longer fixed. After that cycle it is tracked, its measured flag is
  false, and it still carries the z-index of the transfer and still sits below the layer.
\<close>

theorem readded_element_stays_in_layer:
  "map element (fixedElements (addElement noneFixedHost 2
       (stateOf (removeElement 2 (addElement oneFixedHost 2 demoPage))))) = [2]
   \<and> map fixedNow (fixedElements (addElement noneFixedHost 2
       (stateOf (removeElement 2 (addElement oneFixedHost 2 demoPage))))) = [Some False]
   \<and> inlineStyle (addElement noneFixedHost 2
       (stateOf (removeElement 2 (addElement oneFixedHost 2 demoPage)))) 2 ''zIndex''
       = ''calc(10000 + 0)''
   \<and> fixedLayer (addElement noneFixedHost 2
       (stateOf (removeElement 2 (addElement oneFixedHost 2 demoPage)))) = Some 4
   \<and> parentElement 2 (document (addElement noneFixedHost 2
       (stateOf (removeElement 2 (addElement oneFixedHost 2 demoPage))))) = Some 4"
  by (simp add: engine_defs demo_defs)

section \<open>Explicit registration\<close>




section \<open>The order of the registry and the stacking values\<close>

lemma stackingValue_order:
  "stackingValue i zi = Some vi \<Longrightarrow> stackingValue j zj = Some vj
   \<Longrightarrow> parseInt (if zi \<noteq> [] then zi else ''0'') = Some a
   \<Longrightarrow> parseInt (if zj \<noteq> [] then zj else ''0'') = Some b
   \<Longrightarrow> (vi < vj) = (int i + a < int j + b)"
  by (auto simp: stackingValue_def)

lemma stackingValue_same_z:
  "i < j \<Longrightarrow> stackingValue i z = Some vi \<Longrightarrow> stackingValue j z = Some vj \<Longrightarrow> vi < vj"
  by (auto simp: stackingValue_def)



lemma stacking_values:
  "stackingValue 0 ''5'' = Some 10005" "stackingValue 1 ''0'' = Some 10001"
  "stackingValue 0 ''7'' = Some 10007" "stackingValue 1 ''7'' = Some 10008"
  "parseInt ''5'' = Some 5" "parseInt ''0'' = Some 0" "parseInt ''7'' = Some 7"
  by (simp_all add: stackingValue_def parseInt_def isSpace_def isDigit_def Let_def)



end
